(* ===== verification/Uefi_Prelude.thy ===== *)
theory Uefi_Prelude
  imports Main "HOL-Library.Word"
begin

text \<open>
  Shared vocabulary of the development: Go's fixed-width integers and byte slices, the
  result of a Go call (a value, an error value, or a run-time panic), checked indexing
  and slicing, the little-endian accessors of \<open>encoding/binary\<close>, fixed 16-byte arrays, and
  the list and word lemmas that the components use.

  Slicing: Go's \<open>b[i:j]\<close> panics when \<open>i > j\<close> or when \<open>j\<close> exceeds the capacity of \<open>b\<close>. The
  model panics as soon as \<open>j\<close> exceeds the length: it is stricter than Go, so a theorem that
  excludes \<open>Panic\<close> also says that no byte beyond the length of a slice is ever read.
\<close>

unbundle bit_operations_syntax

named_theorems res_simps \<open>rewrite rules of the result type and its bind\<close>
named_theorems codec_simps \<open>round trips and lengths of the byte codecs\<close>

type_synonym byte = "8 word"
type_synonym u16 = "16 word"
type_synonym u32 = "32 word"
type_synonym u64 = "64 word"
type_synonym bytes = "byte list"

subsection \<open>Results: value, error or panic\<close>

text \<open>
  An error value is a sentinel, an error of code outside the repository, or a message made
  by \<open>errors.New\<close> / \<open>fmt.Errorf\<close>: \<open>Leaf\<close> without and \<open>Wrap\<close> with a \<open>%w\<close> operand. The message is the
  format string; its formatted operands are dropped.
\<close>

datatype go_error =
    ErrNotExist
  | ErrTooLarge
  | ErrForeign nat
  | Leaf string
  | Wrap string go_error

text \<open>\<open>errors.Is\<close> against a sentinel follows the chain of \<open>%w\<close> operands.\<close>

primrec errors_Is :: "go_error \<Rightarrow> go_error \<Rightarrow> bool" where
  "errors_Is ErrNotExist t = (t = ErrNotExist)"
| "errors_Is ErrTooLarge t = (t = ErrTooLarge)"
| "errors_Is (ErrForeign n) t = (t = ErrForeign n)"
| "errors_Is (Leaf m) t = (t = Leaf m)"
| "errors_Is (Wrap m e) t = (t = Wrap m e \<or> errors_Is e t)"

datatype 'a res = Ok 'a | Err go_error | Panic

primrec bindR :: "'a res \<Rightarrow> ('a \<Rightarrow> 'b res) \<Rightarrow> 'b res" where
  "bindR (Ok x) f = f x"
| "bindR (Err e) f = Err e"
| "bindR Panic f = Panic"

definition check :: "go_error option \<Rightarrow> string \<Rightarrow> 'a res \<Rightarrow> 'a res" where
  "check eo m k = (case eo of None \<Rightarrow> k | Some e \<Rightarrow> Err (Wrap m e))"

text \<open>\<open>if err != nil { return fmt.Errorf("...: %w", err) }\<close>.\<close>

definition wrap_err :: "string \<Rightarrow> 'a res \<Rightarrow> 'a res" where
  "wrap_err m r = (case r of Ok x \<Rightarrow> Ok x | Err e \<Rightarrow> Err (Wrap m e) | Panic \<Rightarrow> Panic)"

lemma check_None [simp, res_simps]: "check None m k = k"
  by (simp add: check_def)

lemma check_Some [simp, res_simps]: "check (Some e) m k = Err (Wrap m e)"
  by (simp add: check_def)

lemma bindR_Ok_iff: "bindR m f = Ok y \<longleftrightarrow> (\<exists>x. m = Ok x \<and> f x = Ok y)"
  by (cases m) auto

lemma bindR_Panic_iff: "bindR m f = Panic \<longleftrightarrow> m = Panic \<or> (\<exists>x. m = Ok x \<and> f x = Panic)"
  by (cases m) auto

lemma bindR_assoc [res_simps]: "bindR (bindR m f) g = bindR m (\<lambda>x. bindR (f x) g)"
  by (cases m) auto

lemma bindR_cong [fundef_cong]:
  "m = m' \<Longrightarrow> (\<And>x. m' = Ok x \<Longrightarrow> f x = f' x) \<Longrightarrow> bindR m f = bindR m' f'"
  by (cases m') auto

lemma check_Ok_iff: "check eo m k = Ok y \<longleftrightarrow> eo = None \<and> k = Ok y"
  by (cases eo) auto

lemma check_Panic_iff: "check eo m k = Panic \<longleftrightarrow> eo = None \<and> k = Panic"
  by (cases eo) auto

lemma wrap_err_simps [simp, res_simps]:
  "wrap_err m (Ok x) = Ok x" "wrap_err m (Err e) = Err (Wrap m e)" "wrap_err m Panic = Panic"
  by (simp_all add: wrap_err_def)

lemma wrap_err_Panic [simp, res_simps]: "wrap_err m r = Panic \<longleftrightarrow> r = Panic"
  by (cases r) simp_all

lemma wrap_err_Ok_iff: "wrap_err m r = Ok x \<longleftrightarrow> r = Ok x"
  by (cases r) simp_all

subsection \<open>Checked indexing, slicing and copying\<close>

definition index :: "bytes \<Rightarrow> nat \<Rightarrow> byte res" where
  "index b i = (if i < length b then Ok (b ! i) else Panic)"

definition slice :: "bytes \<Rightarrow> nat \<Rightarrow> nat \<Rightarrow> bytes res" where
  "slice b i j = (if i \<le> j \<and> j \<le> length b then Ok (take (j - i) (drop i b)) else Panic)"

definition slice_from :: "bytes \<Rightarrow> nat \<Rightarrow> bytes res" where
  "slice_from b i = slice b i (length b)"

text \<open>\<open>copy(dst, src)\<close> writes the first \<open>min(len(dst), len(src))\<close> bytes.\<close>

definition copy_bytes :: "bytes \<Rightarrow> bytes \<Rightarrow> bytes" where
  "copy_bytes dst src = take (length dst) src @ drop (length src) dst"

text \<open>\<open>copy(b[i:], src)\<close> and \<open>b[i] = v\<close>, in place: the new contents of \<open>b\<close>.\<close>

definition copy_at :: "bytes \<Rightarrow> nat \<Rightarrow> bytes \<Rightarrow> bytes res" where
  "copy_at b i src =
     (if i \<le> length b then Ok (take i b @ copy_bytes (drop i b) src) else Panic)"

definition set_at :: "bytes \<Rightarrow> nat \<Rightarrow> byte \<Rightarrow> bytes res" where
  "set_at b i v = (if i < length b then Ok (b[i := v]) else Panic)"

text \<open>\<open>make([]byte, n)\<close> and the loop \<open>for k := i; k < j; k++ { b[k] = v }\<close>.\<close>

abbreviation make_bytes :: "nat \<Rightarrow> bytes" where
  "make_bytes n \<equiv> replicate n 0"

fun fill :: "bytes \<Rightarrow> nat \<Rightarrow> nat \<Rightarrow> byte \<Rightarrow> bytes res" where
  "fill b i 0 v = Ok b"
| "fill b i (Suc n) v = bindR (set_at b i v) (\<lambda>b'. fill b' (Suc i) n v)"

lemma index_Ok: "i < length b \<Longrightarrow> index b i = Ok (b ! i)"
  by (simp add: index_def)

lemma slice_Ok: "i \<le> j \<Longrightarrow> j \<le> length b \<Longrightarrow> slice b i j = Ok (take (j - i) (drop i b))"
  by (simp add: slice_def)

lemma slice_length: "slice b i j = Ok s \<Longrightarrow> length s = j - i"
  by (auto simp: slice_def split: if_splits)

lemma slice_from_Ok: "i \<le> length b \<Longrightarrow> slice_from b i = Ok (drop i b)"
  by (simp add: slice_from_def slice_def)

lemma copy_bytes_same [simp]: "length src = length dst \<Longrightarrow> copy_bytes dst src = src"
  by (simp add: copy_bytes_def)

lemma length_copy_bytes [simp]: "length (copy_bytes dst src) = length dst"
  by (simp add: copy_bytes_def)

lemma copy_at_Ok:
  "i + length src \<le> length b \<Longrightarrow> copy_at b i src = Ok (take i b @ src @ drop (i + length src) b)"
  by (simp add: copy_at_def copy_bytes_def add.commute)

lemma fill_Ok:
  "i + n \<le> length b \<Longrightarrow> fill b i n v = Ok (take i b @ replicate n v @ drop (i + n) b)"
proof (induction n arbitrary: b i)
  case 0
  then show ?case by simp
next
  case (Suc n)
  then have "fill (b[i := v]) (Suc i) n v =
      Ok (take (Suc i) (b[i := v]) @ replicate n v @ drop (Suc i + n) (b[i := v]))"
    by simp
  moreover have "take (Suc i) (b[i := v]) = take i b @ [v]"
    using Suc.prems by (simp add: take_Suc_conv_app_nth)
  ultimately show ?case
    using Suc.prems by (simp add: set_at_def)
qed

subsection \<open>Little-endian accessors\<close>

definition le16 :: "byte \<Rightarrow> byte \<Rightarrow> u16" where
  "le16 b0 b1 = ucast b0 OR push_bit 8 (ucast b1)"

definition le32 :: "byte \<Rightarrow> byte \<Rightarrow> byte \<Rightarrow> byte \<Rightarrow> u32" where
  "le32 b0 b1 b2 b3 =
     ucast b0 OR push_bit 8 (ucast b1) OR push_bit 16 (ucast b2) OR push_bit 24 (ucast b3)"

definition le64 :: "byte \<Rightarrow> byte \<Rightarrow> byte \<Rightarrow> byte \<Rightarrow> byte \<Rightarrow> byte \<Rightarrow> byte \<Rightarrow> byte \<Rightarrow> u64" where
  "le64 b0 b1 b2 b3 b4 b5 b6 b7 =
     ucast b0 OR push_bit 8 (ucast b1) OR push_bit 16 (ucast b2) OR push_bit 24 (ucast b3) OR
     push_bit 32 (ucast b4) OR push_bit 40 (ucast b5) OR push_bit 48 (ucast b6) OR
     push_bit 56 (ucast b7)"

definition Uint16 :: "bytes \<Rightarrow> u16 res" where
  "Uint16 b = (if 2 \<le> length b then Ok (le16 (b ! 0) (b ! 1)) else Panic)"

definition Uint32 :: "bytes \<Rightarrow> u32 res" where
  "Uint32 b = (if 4 \<le> length b then Ok (le32 (b ! 0) (b ! 1) (b ! 2) (b ! 3)) else Panic)"

definition Uint64 :: "bytes \<Rightarrow> u64 res" where
  "Uint64 b = (if 8 \<le> length b then
     Ok (le64 (b ! 0) (b ! 1) (b ! 2) (b ! 3) (b ! 4) (b ! 5) (b ! 6) (b ! 7)) else Panic)"

definition le16_bytes :: "u16 \<Rightarrow> bytes" where
  "le16_bytes v = [ucast v, ucast (drop_bit 8 v)]"

definition le32_bytes :: "u32 \<Rightarrow> bytes" where
  "le32_bytes v = [ucast v, ucast (drop_bit 8 v), ucast (drop_bit 16 v), ucast (drop_bit 24 v)]"

definition le64_bytes :: "u64 \<Rightarrow> bytes" where
  "le64_bytes v =
     [ucast v, ucast (drop_bit 8 v), ucast (drop_bit 16 v), ucast (drop_bit 24 v),
      ucast (drop_bit 32 v), ucast (drop_bit 40 v), ucast (drop_bit 48 v), ucast (drop_bit 56 v)]"

lemma length_le_bytes [simp]:
  "length (le16_bytes v) = 2" "length (le32_bytes w) = 4" "length (le64_bytes x) = 8"
  by (simp_all add: le16_bytes_def le32_bytes_def le64_bytes_def)

text \<open>Each accessor, bit by bit; the round trips follow by comparing bits.\<close>

lemma byte_bit_high: "8 \<le> n \<Longrightarrow> \<not> bit (b :: byte) n"
  by (auto dest: bit_imp_le_length)

lemma bit_le16:
  "bit (le16 b0 b1) n \<longleftrightarrow> (if n < 8 then bit b0 n else bit b1 (n - 8))"
  by (cases "n < 16") (auto simp: le16_def bit_simps byte_bit_high not_less)

lemma bit_le32:
  "bit (le32 b0 b1 b2 b3) n \<longleftrightarrow>
     (if n < 8 then bit b0 n else if n < 16 then bit b1 (n - 8)
      else if n < 24 then bit b2 (n - 16) else bit b3 (n - 24))"
proof -
  consider "n < 8" | "8 \<le> n" "n < 16" | "16 \<le> n" "n < 24" | "24 \<le> n" "n < 32" | "32 \<le> n"
    by linarith
  then show ?thesis
    by cases (simp_all add: le32_def bit_simps byte_bit_high less_diff_conv2)
qed

lemma bit_le64:
  "bit (le64 b0 b1 b2 b3 b4 b5 b6 b7) n \<longleftrightarrow>
     (if n < 8 then bit b0 n else if n < 16 then bit b1 (n - 8)
      else if n < 24 then bit b2 (n - 16) else if n < 32 then bit b3 (n - 24)
      else if n < 40 then bit b4 (n - 32) else if n < 48 then bit b5 (n - 40)
      else if n < 56 then bit b6 (n - 48) else bit b7 (n - 56))"
proof -
  consider "n < 8" | "8 \<le> n" "n < 16" | "16 \<le> n" "n < 24" | "24 \<le> n" "n < 32"
    | "32 \<le> n" "n < 40" | "40 \<le> n" "n < 48" | "48 \<le> n" "n < 56" | "56 \<le> n" "n < 64" | "64 \<le> n"
    by linarith
  then show ?thesis
    by cases (simp_all add: le64_def bit_simps byte_bit_high less_diff_conv2)
qed

lemma le16_roundtrip [codec_simps]: "le16 (ucast v) (ucast (drop_bit 8 v)) = v"
  by (rule bit_word_eqI) (auto simp: bit_le16 bit_simps not_less less_diff_conv2)

lemma le32_roundtrip [codec_simps]:
  "le32 (ucast v) (ucast (drop_bit 8 v)) (ucast (drop_bit 16 v)) (ucast (drop_bit 24 v)) = v"
  by (rule bit_word_eqI) (auto simp: bit_le32 bit_simps not_less less_diff_conv2)

lemma le64_roundtrip [codec_simps]:
  "le64 (ucast v) (ucast (drop_bit 8 v)) (ucast (drop_bit 16 v)) (ucast (drop_bit 24 v))
     (ucast (drop_bit 32 v)) (ucast (drop_bit 40 v)) (ucast (drop_bit 48 v)) (ucast (drop_bit 56 v)) = v"
  by (rule bit_word_eqI) (auto simp: bit_le64 bit_simps not_less less_diff_conv2)

lemma le16_bytes_le16 [codec_simps]: "le16_bytes (le16 b0 b1) = [b0, b1]"
  by (auto simp: le16_bytes_def bit_le16 bit_simps intro!: bit_word_eqI)

lemma le32_bytes_le32 [codec_simps]: "le32_bytes (le32 b0 b1 b2 b3) = [b0, b1, b2, b3]"
  by (auto simp: le32_bytes_def bit_le32 bit_simps intro!: bit_word_eqI)

lemma le64_bytes_le64 [codec_simps]:
  "le64_bytes (le64 b0 b1 b2 b3 b4 b5 b6 b7) = [b0, b1, b2, b3, b4, b5, b6, b7]"
  by (auto simp: le64_bytes_def bit_le64 bit_simps intro!: bit_word_eqI)

lemma Uint16_bytes [codec_simps]: "Uint16 (le16_bytes v @ r) = Ok v"
  by (simp add: Uint16_def le16_bytes_def le16_roundtrip)

lemma Uint32_bytes [codec_simps]: "Uint32 (le32_bytes v @ r) = Ok v"
  by (simp add: Uint32_def le32_bytes_def le32_roundtrip)

lemma Uint64_bytes [codec_simps]: "Uint64 (le64_bytes v @ r) = Ok v"
  by (simp add: Uint64_def le64_bytes_def le64_roundtrip)

lemma Uint_not_Panic:
  "2 \<le> length b \<Longrightarrow> Uint16 b \<noteq> Panic"
  "4 \<le> length b \<Longrightarrow> Uint32 b \<noteq> Panic"
  "8 \<le> length b \<Longrightarrow> Uint64 b \<noteq> Panic"
  by (simp_all add: Uint16_def Uint32_def Uint64_def)

subsection \<open>Computations that return a value\<close>

text \<open>Rules for showing that a computation returns a value.\<close>

lemma Ok_if: "(c \<Longrightarrow> \<exists>t. x = Ok t) \<Longrightarrow> (\<not> c \<Longrightarrow> \<exists>t. y = Ok t) \<Longrightarrow> \<exists>t. (if c then x else y) = Ok t"
  by simp

lemma Ok_bind: "\<exists>x. m = Ok x \<Longrightarrow> (\<And>x. \<exists>t. f x = Ok t) \<Longrightarrow> \<exists>t. bindR m f = Ok t"
  by (auto simp: bindR_Ok_iff)

lemma Ok_value: "\<exists>t. Ok x = Ok t"
  by simp

lemma Ok_option: "(\<And>x. \<exists>t. f x = Ok t) \<Longrightarrow> \<exists>t. y = Ok t \<Longrightarrow> \<exists>t. (case z of Some x \<Rightarrow> f x | None \<Rightarrow> y) = Ok t"
  by (cases z) auto

lemma Ok_index: "i < length b \<Longrightarrow> \<exists>t. index b i = Ok t"
  by (simp add: index_def)

lemma Ok_slice: "i \<le> j \<Longrightarrow> j \<le> length b \<Longrightarrow> \<exists>t. slice b i j = Ok t"
  by (simp add: slice_def)

lemma Ok_u32: "i + 4 \<le> j \<Longrightarrow> j \<le> length b \<Longrightarrow> \<exists>t. bindR (slice b i j) Uint32 = Ok t"
  by (simp add: slice_def Uint32_def)

lemmas Ok_rules = Ok_value Ok_if Ok_option Ok_u32 Ok_index Ok_slice Ok_bind

subsection \<open>Writing at an offset\<close>

text \<open>\<open>PutUint16(b[i:], v)\<close> and its kin write all bytes of \<open>v\<close> or panic; \<open>copy(b[i:j], src)\<close> writes
  what fits between \<open>i\<close> and \<open>j\<close>.\<close>

definition put_bytes :: "bytes \<Rightarrow> nat \<Rightarrow> bytes \<Rightarrow> bytes res" where
  "put_bytes b i v = (if i + length v \<le> length b then Ok (take i b @ v @ drop (i + length v) b) else Panic)"

definition copy_range :: "bytes \<Rightarrow> nat \<Rightarrow> nat \<Rightarrow> bytes \<Rightarrow> bytes res" where
  "copy_range b i j src =
     bindR (slice b i j) (\<lambda>d. Ok (take i b @ copy_bytes d src @ drop j b))"

lemma set_at_put: "set_at b i v = put_bytes b i [v]"
  by (simp add: set_at_def put_bytes_def upd_conv_take_nth_drop)

lemma copy_range_put: "j = i + length src \<Longrightarrow> copy_range b i j src = put_bytes b i src"
  by (auto simp: copy_range_def put_bytes_def slice_def)

lemma put_bytes_append:
  "i + length v \<le> length x \<Longrightarrow> put_bytes (x @ y) i v = Ok ((take i x @ v @ drop (i + length v) x) @ y)"
  by (simp add: put_bytes_def)

subsection \<open>Reading at an offset\<close>

text \<open>Reading a buffer at offset \<open>o + i\<close> is reading its suffix from \<open>o\<close> at \<open>i\<close>.\<close>

lemma index_offset: "o' \<le> length b \<Longrightarrow> index b (o' + i) = index (drop o' b) i"
  by (auto simp: index_def)

lemma slice_offset: "o' \<le> length b \<Longrightarrow> slice b (o' + i) (o' + j) = slice (drop o' b) i j"
  by (auto simp: slice_def add.commute)

lemma slice_from_offset: "o' \<le> length b \<Longrightarrow> slice_from b (o' + i) = slice_from (drop o' b) i"
  by (auto simp: slice_from_def slice_def add.commute)

subsection \<open>Words without wrap-around\<close>

lemma unat_plus: "unat a + unat b < 2 ^ LENGTH('a) \<Longrightarrow> unat (a + b) = unat a + unat b"
  for a b :: "'a::len word"
  by (simp add: unat_add_lem)

lemma unat_u32_less: "unat (w :: u32) < 2 ^ 32"
  using unsigned_less [of w] by simp

lemma unat_of_nat_u32: "n < 2 ^ 32 \<Longrightarrow> unat (of_nat n :: u32) = n"
  by (simp add: unat_of_nat)

lemma word_of_int_int: "word_of_int (int n) = of_nat n"
  by simp

lemma and_not_mask_eq: "a AND NOT (mask n) = push_bit n (drop_bit n a)"
  for a :: "'a::ring_bit_operations"
  by (rule bit_eqI) (auto simp: bit_simps dest: bit_imp_possible_bit)

text \<open>The simplifier reads \<open>NOT 3\<close> as \<open>- 4\<close>.\<close>

lemma int_and_not_3: "x AND - 4 = 4 * (x div 4)" for x :: int
  using and_not_mask_eq [of x 2] by (simp add: mask_eq_exp_minus_1 push_bit_eq_mult drop_bit_eq_div)

lemma unat_and_not_3: "unat (x AND - 4) = 4 * (unat x div 4)" for x :: u32
proof -
  have "4 * (unat x div 4) \<le> unat x"
    by simp
  also have "unat x < 2 ^ 32"
    by (rule unat_u32_less)
  finally have "4 * (unat x div 4) < 2 ^ 32" .
  moreover have "x AND - 4 = push_bit 2 (drop_bit 2 x)"
    using and_not_mask_eq [of x 2] by (simp add: mask_eq_exp_minus_1)
  moreover have "take_bit 32 (unat x) = unat x"
    using unat_u32_less by (simp add: take_bit_nat_eq_self_iff)
  then have "unat (push_bit 2 (drop_bit 2 x)) = take_bit 32 (push_bit 2 (drop_bit 2 (unat x)))"
    by (simp add: unsigned_push_bit_eq unsigned_drop_bit_eq)
  moreover have "push_bit 2 (drop_bit 2 (unat x)) = 4 * (unat x div 4)"
    by (simp add: push_bit_eq_mult drop_bit_eq_div)
  ultimately show ?thesis
    by (simp add: take_bit_nat_eq_self_iff)
qed

text \<open>Rounding up to a multiple of four.\<close>

definition align4 :: "nat \<Rightarrow> nat" where
  "align4 n = 4 * ((n + 3) div 4)"

lemma align4_bounds: "n \<le> align4 n" "align4 n < n + 4" "align4 n mod 4 = 0"
  by (simp_all add: align4_def)

lemma align4_add: "m mod 4 = 0 \<Longrightarrow> align4 (m + n) = m + align4 n"
  by (auto simp: align4_def add.assoc mod_eq_0_iff_dvd)

lemma align4_id: "n mod 4 = 0 \<Longrightarrow> align4 n = n"
  by (auto simp: align4_def mod_eq_0_iff_dvd)

subsection \<open>Arrays of sixteen bytes\<close>

datatype byte16 =
  B16 byte byte byte byte byte byte byte byte byte byte byte byte byte byte byte byte

fun bytes_of16 :: "byte16 \<Rightarrow> bytes" where
  "bytes_of16 (B16 a b c d e f g h i j k l m n p q) = [a, b, c, d, e, f, g, h, i, j, k, l, m, n, p, q]"

definition byte16_of :: "bytes \<Rightarrow> byte16" where
  "byte16_of b = B16 (b ! 0) (b ! 1) (b ! 2) (b ! 3) (b ! 4) (b ! 5) (b ! 6) (b ! 7)
     (b ! 8) (b ! 9) (b ! 10) (b ! 11) (b ! 12) (b ! 13) (b ! 14) (b ! 15)"

text \<open>\<open>var g [16]byte; copy(g[:], src)\<close>.\<close>

definition copy16 :: "bytes \<Rightarrow> byte16" where
  "copy16 src = byte16_of (copy_bytes (make_bytes 16) src)"

lemma length_bytes_of16 [simp]: "length (bytes_of16 g) = 16"
  by (cases g) simp

lemma copy16_bytes_of16 [simp]: "copy16 (bytes_of16 g) = g"
  by (cases g) (simp add: copy16_def byte16_of_def)

lemma bytes_of16_copy16: "length b = 16 \<Longrightarrow> bytes_of16 (copy16 b) = b"
  by (auto simp: copy16_def byte16_of_def numeral_eq_Suc length_Suc_conv)

lemma bytes_of16_inject [simp]: "bytes_of16 g = bytes_of16 h \<longleftrightarrow> g = h"
  by (cases g; cases h) auto

end
