(* ===== verification/Go_Text.thy ===== *)
theory Go_Text
  imports Uefi_Prelude
begin

text \<open>
  Text: what the package uses of Go's strings, \<open>unicode/utf16\<close> and \<open>fmt\<close>, and its own UTF-16LE
  codec (\<open>DecodeUTF16LE\<close> and \<open>EncodeUTF16LE\<close> of uefi.go). A Go string is a sequence of bytes, here a
  HOL \<open>string\<close> whose characters are the bytes; \<open>[]rune(s)\<close> decodes it as UTF-8, replacing every
  byte of an invalid sequence by U+FFFD, and \<open>string(runes)\<close> encodes it back. Runes are
  natural numbers: the values the package meets come from these decoders and lie between 0
  and 0x10FFFF.
\<close>

subsection \<open>UTF-8: the conversions \<open>[]rune(s)\<close> and \<open>string(runes)\<close>\<close>

abbreviation RuneError :: nat where
  "RuneError \<equiv> 0xFFFD"

definition scalar :: "nat \<Rightarrow> bool" where
  "scalar r \<longleftrightarrow> r \<le> 0x10FFFF \<and> \<not> (0xD800 \<le> r \<and> r \<le> 0xDFFF)"

definition cont :: "nat \<Rightarrow> bool" where
  "cont b \<longleftrightarrow> 0x80 \<le> b \<and> b \<le> 0xBF"

definition decode3 :: "nat \<Rightarrow> nat \<Rightarrow> nat \<Rightarrow> nat \<times> nat" where
  "decode3 b0 b1 b2 =
     (if (if b0 = 0xE0 then 0xA0 else 0x80) \<le> b1 \<and> b1 \<le> (if b0 = 0xED then 0x9F else 0xBF) \<and> cont b2
      then ((b0 mod 16) * 4096 + (b1 mod 64) * 64 + b2 mod 64, 3) else (RuneError, 1))"

definition decode4 :: "nat \<Rightarrow> nat \<Rightarrow> nat \<Rightarrow> nat \<Rightarrow> nat \<times> nat" where
  "decode4 b0 b1 b2 b3 =
     (if (if b0 = 0xF0 then 0x90 else 0x80) \<le> b1 \<and> b1 \<le> (if b0 = 0xF4 then 0x8F else 0xBF) \<and>
         cont b2 \<and> cont b3
      then ((b0 mod 8) * 262144 + (b1 mod 64) * 4096 + (b2 mod 64) * 64 + b3 mod 64, 4)
      else (RuneError, 1))"

text \<open>\<open>utf8.DecodeRune\<close>: the first rune of a non-empty byte sequence and its width.\<close>

definition decode_rune :: "nat \<Rightarrow> nat list \<Rightarrow> nat \<times> nat" where
  "decode_rune b0 r =
     (if b0 < 0x80 then (b0, 1)
      else if 0xC2 \<le> b0 \<and> b0 \<le> 0xDF then
        (case r of b1 # _ \<Rightarrow> if cont b1 then ((b0 mod 32) * 64 + b1 mod 64, 2) else (RuneError, 1)
         | _ \<Rightarrow> (RuneError, 1))
      else if 0xE0 \<le> b0 \<and> b0 \<le> 0xEF then
        (case r of b1 # b2 # _ \<Rightarrow> decode3 b0 b1 b2 | _ \<Rightarrow> (RuneError, 1))
      else if 0xF0 \<le> b0 \<and> b0 \<le> 0xF4 then
        (case r of b1 # b2 # b3 # _ \<Rightarrow> decode4 b0 b1 b2 b3 | _ \<Rightarrow> (RuneError, 1))
      else (RuneError, 1))"

function utf8_decode :: "nat list \<Rightarrow> nat list" where
  "utf8_decode [] = []"
| "utf8_decode (b0 # r) =
     (case decode_rune b0 r of (c, w) \<Rightarrow> c # utf8_decode (drop (w - 1) r))"
  by pat_completeness auto
termination
  by (relation "measure length") auto

definition encode_rune :: "nat \<Rightarrow> nat list" where
  "encode_rune r =
     (if r \<le> 0x7F then [r]
      else if r \<le> 0x7FF then [0xC0 + r div 64, 0x80 + r mod 64]
      else if \<not> scalar r then [0xEF, 0xBF, 0xBD]
      else if r \<le> 0xFFFF then [0xE0 + r div 4096, 0x80 + (r div 64) mod 64, 0x80 + r mod 64]
      else [0xF0 + r div 262144, 0x80 + (r div 4096) mod 64, 0x80 + (r div 64) mod 64, 0x80 + r mod 64])"

definition runes_of_string :: "string \<Rightarrow> nat list" where
  "runes_of_string s = utf8_decode (map of_char s)"

definition string_of_runes :: "nat list \<Rightarrow> string" where
  "string_of_runes rs = map char_of (concat (map encode_rune rs))"

text \<open>A string that survives the conversion to runes and back, such as any valid UTF-8.\<close>

definition valid_utf8 :: "string \<Rightarrow> bool" where
  "valid_utf8 s \<longleftrightarrow> string_of_runes (runes_of_string s) = s"

lemma low_bits:
  "k < 32 \<Longrightarrow> (0xC0 + k) mod 32 = k" "k < 16 \<Longrightarrow> (0xE0 + k) mod 16 = k"
  "k < 8 \<Longrightarrow> (0xF0 + k) mod 8 = k" "k < 64 \<Longrightarrow> (0x80 + k) mod 64 = k" for k :: nat
  by (subst mod_add_eq [symmetric], simp)+

lemma decode3_scalar:
  assumes "0xE0 \<le> b0" "b0 \<le> 0xEF"
  shows "scalar (fst (decode3 b0 b1 b2))"
proof (cases "(if b0 = 0xE0 then 0xA0 else 0x80) \<le> b1 \<and> b1 \<le> (if b0 = 0xED then 0x9F else 0xBF) \<and> cont b2")
  case True
  then have "0x80 \<le> b1" "0x80 \<le> b2"
    by (auto simp: cont_def split: if_splits)
  with assms(1) obtain a b c where abc: "b0 = 0xE0 + a" "b1 = 0x80 + b" "b2 = 0x80 + c"
    by (auto simp: le_iff_add)
  have bounds: "a < 16" "b < 64" "c < 64" "a \<noteq> 13 \<or> b < 32"
    using True assms(2) by (auto simp: abc cont_def split: if_splits)
  have "fst (decode3 b0 b1 b2) = a * 4096 + b * 64 + c"
    using True bounds by (simp add: decode3_def abc low_bits)
  moreover have "a * 4096 + b * 64 + c \<le> 0x10FFFF"
    using bounds by linarith
  moreover have "a * 4096 + b * 64 + c < 0xD800 \<or> 0xDFFF < a * 4096 + b * 64 + c"
  proof -
    consider "a < 13" | "a = 13" "b < 32" | "13 < a"
      using bounds(4) nat_neq_iff by blast
    then show ?thesis
      by cases (use bounds(1-3) in linarith)+
  qed
  ultimately show ?thesis
    unfolding scalar_def by linarith
next
  case False
  then have "fst (decode3 b0 b1 b2) = RuneError"
    unfolding decode3_def by (simp only: if_False fst_conv)
  then show ?thesis by (simp add: scalar_def)
qed

lemma decode4_scalar:
  assumes "0xF0 \<le> b0" "b0 \<le> 0xF4"
  shows "scalar (fst (decode4 b0 b1 b2 b3))"
proof (cases "(if b0 = 0xF0 then 0x90 else 0x80) \<le> b1 \<and> b1 \<le> (if b0 = 0xF4 then 0x8F else 0xBF) \<and>
    cont b2 \<and> cont b3")
  case True
  then have "0x80 \<le> b1" "0x80 \<le> b2" "0x80 \<le> b3"
    by (auto simp: cont_def split: if_splits)
  with assms(1) obtain a b c d where abcd: "b0 = 0xF0 + a" "b1 = 0x80 + b" "b2 = 0x80 + c" "b3 = 0x80 + d"
    by (auto simp: le_iff_add)
  have bounds: "a < 5" "b < 64" "c < 64" "d < 64" "a < 4 \<or> b < 16" "0 < a \<or> 16 \<le> b"
    using True assms(2) by (auto simp: abcd cont_def split: if_splits)
  have "fst (decode4 b0 b1 b2 b3) = a * 262144 + b * 4096 + c * 64 + d"
    using True bounds by (simp add: decode4_def abcd low_bits)
  then show ?thesis
    using bounds by (auto simp: scalar_def)
next
  case False
  then have "fst (decode4 b0 b1 b2 b3) = RuneError"
    unfolding decode4_def by (simp only: if_False fst_conv)
  then show ?thesis by (simp add: scalar_def)
qed

lemma decode_rune_scalar: "scalar (fst (decode_rune b0 r))"
proof -
  have two: "scalar ((b0 mod 32) * 64 + b1 mod 64)" if "cont b1" "0xC2 \<le> b0" "b0 \<le> 0xDF" for b1
  proof -
    from that obtain a b where "b0 = 0xC0 + a" "b1 = 0x80 + b" "a < 32" "b < 64"
      by (force simp: cont_def le_iff_add)
    then show ?thesis by (simp add: low_bits scalar_def)
  qed
  have "scalar RuneError" and "b0 < 0x80 \<Longrightarrow> scalar b0"
    by (simp_all add: scalar_def)
  with two show ?thesis
    by (auto simp: decode_rune_def decode3_scalar decode4_scalar split: list.split)
qed

lemma utf8_decode_scalar: "\<forall>r \<in> set (utf8_decode bs). scalar r"
proof (induction bs rule: utf8_decode.induct)
  case (2 b0 r)
  then show ?case
    using decode_rune_scalar [of b0 r] by (cases "decode_rune b0 r") auto
qed simp

lemma encode_rune_byte: "b \<in> set (encode_rune r) \<Longrightarrow> b < 256"
  by (auto simp: encode_rune_def scalar_def split: if_splits)

lemma base64_digits:
  "r = r div 4096 * 4096 + r div 64 mod 64 * 64 + r mod 64"
  "r = r div 262144 * 262144 + r div 4096 mod 64 * 4096 + r div 64 mod 64 * 64 + r mod 64" for r :: nat
proof -
  have "r div 4096 = r div 64 div 64" "r div 262144 = r div 4096 div 64"
    using div_mult2_eq [of r 64 64] div_mult2_eq [of r 4096 64] by simp_all
  with div_mult_mod_eq [of r 64] div_mult_mod_eq [of "r div 64" 64] div_mult_mod_eq [of "r div 4096" 64]
  show "r = r div 4096 * 4096 + r div 64 mod 64 * 64 + r mod 64"
    "r = r div 262144 * 262144 + r div 4096 mod 64 * 4096 + r div 64 mod 64 * 64 + r mod 64"
    by linarith+
qed

lemma decode_encode_rune:
  assumes "scalar r"
  shows "\<exists>b0 t. encode_rune r = b0 # t \<and> decode_rune b0 (t @ rest) = (r, Suc (length t))"
proof -
  consider "r \<le> 0x7F" | "0x7F < r" "r \<le> 0x7FF" | "0x7FF < r" "r \<le> 0xFFFF" | "0xFFFF < r" "r \<le> 0x10FFFF"
    using assms unfolding scalar_def by linarith
  then show ?thesis
  proof cases
    case 1
    then show ?thesis by (simp add: encode_rune_def decode_rune_def)
  next
    case 2
    define a where "a = r div 64"
    define c where "c = r mod 64"
    have "r = a * 64 + c" "c < 64"
      by (simp_all add: a_def c_def)
    moreover have enc: "encode_rune r = [0xC0 + a, 0x80 + c]"
      using 2 by (simp add: encode_rune_def a_def c_def)
    ultimately show ?thesis
      using 2 by (auto simp: decode_rune_def cont_def low_bits)
  next
    case 3
    define a where "a = r div 4096"
    define b where "b = (r div 64) mod 64"
    define c where "c = r mod 64"
    have eq: "r = a * 4096 + b * 64 + c" "b < 64" "c < 64"
      using base64_digits(1) [of r] by (simp_all add: a_def b_def c_def)
    have enc: "encode_rune r = [0xE0 + a, 0x80 + b, 0x80 + c]"
      using 3 assms by (simp add: encode_rune_def a_def b_def c_def)
    have "a \<le> 15" "a = 0 \<Longrightarrow> 32 \<le> b" "a = 13 \<Longrightarrow> b \<le> 31"
      using 3 eq assms by (auto simp: scalar_def)
    then have "decode3 (0xE0 + a) (0x80 + b) (0x80 + c) = (r, 3)"
      using eq by (auto simp: decode3_def cont_def low_bits)
    with enc \<open>a \<le> 15\<close> show ?thesis
      by (simp add: decode_rune_def)
  next
    case 4
    define a where "a = r div 262144"
    define b where "b = (r div 4096) mod 64"
    define c where "c = (r div 64) mod 64"
    define d where "d = r mod 64"
    have eq: "r = a * 262144 + b * 4096 + c * 64 + d" "b < 64" "c < 64" "d < 64"
      using base64_digits(2) [of r] by (simp_all add: a_def b_def c_def d_def)
    have enc: "encode_rune r = [0xF0 + a, 0x80 + b, 0x80 + c, 0x80 + d]"
      using 4 assms by (simp add: encode_rune_def a_def b_def c_def d_def)
    have "a \<le> 4" "a = 0 \<Longrightarrow> 16 \<le> b" "a = 4 \<Longrightarrow> b \<le> 15"
      using 4 eq by linarith+
    then have "decode4 (0xF0 + a) (0x80 + b) (0x80 + c) (0x80 + d) = (r, 4)"
      using eq by (auto simp: decode4_def cont_def low_bits)
    with enc \<open>a \<le> 4\<close> show ?thesis
      by (simp add: decode_rune_def)
  qed
qed

lemma utf8_roundtrip: "\<forall>r \<in> set rs. scalar r \<Longrightarrow> utf8_decode (concat (map encode_rune rs)) = rs"
proof (induction rs)
  case (Cons r rs)
  obtain b0 t where "encode_rune r = b0 # t"
    and "decode_rune b0 (t @ concat (map encode_rune rs)) = (r, Suc (length t))"
    using decode_encode_rune [of r "concat (map encode_rune rs)"] Cons.prems by auto
  with Cons show ?case by simp
qed simp

lemma runes_of_string_of_runes: "\<forall>r \<in> set rs. scalar r \<Longrightarrow> runes_of_string (string_of_runes rs) = rs"
proof -
  assume sc: "\<forall>r \<in> set rs. scalar r"
  have "\<forall>b \<in> set (concat (map encode_rune rs)). b < 256"
    using encode_rune_byte by auto
  then have "map (of_char \<circ> char_of) (concat (map encode_rune rs)) = concat (map encode_rune rs)"
    by (intro map_idI) (metis comp_apply mod_less of_char_of)
  with sc show ?thesis
    by (simp add: runes_of_string_def string_of_runes_def utf8_roundtrip)
qed

lemma runes_of_string_scalar: "\<forall>r \<in> set (runes_of_string s). scalar r"
  by (simp add: runes_of_string_def utf8_decode_scalar)

lemma valid_utf8_string_of_runes: "\<forall>r \<in> set rs. scalar r \<Longrightarrow> valid_utf8 (string_of_runes rs)"
  by (simp add: valid_utf8_def runes_of_string_of_runes)

lemma utf8_decode_ascii: "\<forall>b \<in> set bs. b < 0x80 \<Longrightarrow> utf8_decode bs = bs"
  by (induction bs) (simp_all add: decode_rune_def)

lemma runes_of_ascii:
  "\<forall>c \<in> set s. of_char c < (0x80 :: nat) \<Longrightarrow> runes_of_string s = map of_char s"
  by (simp add: runes_of_string_def utf8_decode_ascii)

lemma valid_utf8_ascii: "\<forall>c \<in> set s. of_char c < (0x80 :: nat) \<Longrightarrow> valid_utf8 s"
  unfolding valid_utf8_def string_of_runes_def
  by (subst runes_of_ascii, simp, induction s) (auto simp: encode_rune_def)

subsection \<open>UTF-16: \<open>utf16.Encode\<close> and \<open>utf16.Decode\<close>\<close>

definition utf16_units :: "nat \<Rightarrow> u16 list" where
  "utf16_units r =
     (if \<not> scalar r then [0xFFFD]
      else if r < 0x10000 then [of_nat r]
      else [of_nat (0xD800 + (r - 0x10000) div 1024), of_nat (0xDC00 + (r - 0x10000) mod 1024)])"

definition utf16_Encode :: "nat list \<Rightarrow> u16 list" where
  "utf16_Encode rs = concat (map utf16_units rs)"

fun utf16_Decode :: "u16 list \<Rightarrow> nat list" where
  "utf16_Decode [] = []"
| "utf16_Decode (u # us) =
     (if unat u < 0xD800 \<or> 0xE000 \<le> unat u then unat u # utf16_Decode us
      else (case us of
          v # vs \<Rightarrow>
            if unat u < 0xDC00 \<and> 0xDC00 \<le> unat v \<and> unat v < 0xE000
            then ((unat u - 0xD800) * 1024 + (unat v - 0xDC00) + 0x10000) # utf16_Decode vs
            else RuneError # utf16_Decode us
        | [] \<Rightarrow> [RuneError]))"

lemma unat_of_nat_u16: "n < 0x10000 \<Longrightarrow> unat (of_nat n :: u16) = n"
  by (simp add: unat_of_nat)

lemma utf16_Decode_units: "scalar r \<Longrightarrow> utf16_Decode (utf16_units r @ us) = r # utf16_Decode us"
proof (cases "r < 0x10000")
  case True
  moreover assume "scalar r"
  ultimately show ?thesis
    by (auto simp: utf16_units_def unat_of_nat_u16 scalar_def)
next
  case False
  assume sc: "scalar r"
  define q where "q = (r - 0x10000) div 1024"
  define m where "m = (r - 0x10000) mod 1024"
  have r: "r = q * 1024 + m + 0x10000" "m < 1024"
    using False div_mult_mod_eq [of "r - 0x10000" 1024] by (simp_all add: q_def m_def)
  have "q < 1024"
    using r sc by (auto simp: scalar_def)
  moreover have "utf16_units r = [of_nat (0xD800 + q), of_nat (0xDC00 + m)]"
    using sc False unfolding utf16_units_def q_def m_def by (simp only: not_True_eq_False if_False)
  ultimately show ?thesis
    using r by (simp add: unat_of_nat_u16 del: of_nat_add)
qed

lemma utf16_roundtrip: "\<forall>r \<in> set rs. scalar r \<Longrightarrow> utf16_Decode (utf16_Encode rs) = rs"
  by (induction rs) (simp_all add: utf16_Encode_def utf16_Decode_units)

lemma surrogate_pair_scalar:
  assumes "0xD800 \<le> a" "a < 0xDC00" "0xDC00 \<le> b" "b < 0xE000"
  shows "scalar ((a - 0xD800) * 1024 + (b - 0xDC00) + 0x10000)"
proof -
  have "a - 0xD800 < 1024" "b - 0xDC00 < 1024"
    using assms by linarith+
  then show ?thesis
    unfolding scalar_def by linarith
qed

lemma bmp_scalar: "u < 0xD800 \<or> 0xE000 \<le> u \<Longrightarrow> u < 0x10000 \<Longrightarrow> scalar u"
  by (auto simp: scalar_def)

lemma RuneError_scalar: "scalar RuneError"
  by (simp add: scalar_def)

lemma utf16_Decode_scalar: "\<forall>r \<in> set (utf16_Decode us). scalar r"
proof (induction us rule: utf16_Decode.induct)
  case (2 u us)
  have "unat u < 0x10000"
    using unsigned_less [of u] by simp
  show ?case
  proof (cases "unat u < 0xD800 \<or> 0xE000 \<le> unat u")
    case True
    then show ?thesis
      using "2.IH"(1) \<open>unat u < 0x10000\<close> bmp_scalar by simp
  next
    case high: False
    show ?thesis
    proof (cases us)
      case Nil
      with high show ?thesis by (simp add: RuneError_scalar)
    next
      case (Cons v vs)
      show ?thesis
      proof (cases "unat u < 0xDC00 \<and> 0xDC00 \<le> unat v \<and> unat v < 0xE000")
        case True
        then show ?thesis
          using high Cons "2.IH"(2) [OF high Cons True] surrogate_pair_scalar [of "unat u" "unat v"]
          by (simp add: not_less)
      next
        case False
        then have "utf16_Decode (u # us) = RuneError # utf16_Decode us"
          using high Cons by (simp only: utf16_Decode.simps if_False list.case)
        then show ?thesis
          using "2.IH"(3) [OF high Cons False] RuneError_scalar by (simp only: list.set ball_simps)
      qed
    qed
  qed
qed simp

subsection \<open>The UTF-16LE codec of uefi.go\<close>

text \<open>The loop \<open>u16[i] = Uint16(b[i*2:])\<close> over \<open>len(b)/2\<close> units.\<close>

fun units_of_bytes :: "bytes \<Rightarrow> u16 list" where
  "units_of_bytes (x # y # b) = le16 x y # units_of_bytes b"
| "units_of_bytes _ = []"

definition DecodeUTF16LE :: "bytes \<Rightarrow> string res" where
  "DecodeUTF16LE b =
     (if length b mod 2 \<noteq> 0 then Err (Leaf ''odd-length UTF-16LE buffer'')
      else let u16 = units_of_bytes b;
               u16' = (if 0 < length u16 \<and> u16 ! (length u16 - 1) = 0
                       then take (length u16 - 1) u16 else u16)
           in Ok (string_of_runes (utf16_Decode u16')))"

definition EncodeUTF16LE :: "string \<Rightarrow> bytes" where
  "EncodeUTF16LE s = concat (map le16_bytes (utf16_Encode (runes_of_string s) @ [0]))"

lemma units_of_le16_bytes [codec_simps]: "units_of_bytes (concat (map le16_bytes us)) = us"
  by (induction us) (simp_all add: le16_bytes_def le16_roundtrip)

lemma length_concat_le16 [simp]: "length (concat (map le16_bytes us)) = 2 * length us"
  by (induction us) simp_all

lemma length_EncodeUTF16LE:
  "length (EncodeUTF16LE s) = 2 * Suc (length (utf16_Encode (runes_of_string s)))"
  by (simp add: EncodeUTF16LE_def)

lemma DecodeUTF16LE_not_Panic [simp]: "DecodeUTF16LE b \<noteq> Panic"
  by (simp add: DecodeUTF16LE_def Let_def)

lemma DecodeUTF16LE_Encode:
  "DecodeUTF16LE (EncodeUTF16LE s) = Ok (string_of_runes (runes_of_string s))"
proof -
  have "units_of_bytes (EncodeUTF16LE s) = utf16_Encode (runes_of_string s) @ [0]"
    unfolding EncodeUTF16LE_def by (rule units_of_le16_bytes)
  then show ?thesis
    by (simp add: DecodeUTF16LE_def length_EncodeUTF16LE utf16_roundtrip runes_of_string_scalar)
qed

lemma DecodeUTF16LE_valid: "DecodeUTF16LE b = Ok s \<Longrightarrow> valid_utf8 s"
  by (auto simp: DecodeUTF16LE_def Let_def valid_utf8_string_of_runes utf16_Decode_scalar split: if_splits)

subsection \<open>Number formatting: the verbs \<open>%x\<close>, \<open>%0nx\<close>, \<open>%0nX\<close> and \<open>%d\<close>\<close>

function nat_digits :: "nat \<Rightarrow> nat \<Rightarrow> nat list" where
  "nat_digits b n = (if n < b \<or> b < 2 then [n] else nat_digits b (n div b) @ [n mod b])"
  by pat_completeness auto
termination
  by (relation "measure snd") auto

declare nat_digits.simps [simp del]

definition pad_digits :: "nat \<Rightarrow> nat list \<Rightarrow> nat list" where
  "pad_digits w ds = replicate (w - length ds) 0 @ ds"

definition lower_digit :: "nat \<Rightarrow> char" where
  "lower_digit d = ''0123456789abcdef'' ! d"

definition upper_digit :: "nat \<Rightarrow> char" where
  "upper_digit d = ''0123456789ABCDEF'' ! d"

definition fmt_x :: "nat \<Rightarrow> string" where
  "fmt_x n = map lower_digit (nat_digits 16 n)"

definition fmt_0x :: "nat \<Rightarrow> nat \<Rightarrow> string" where
  "fmt_0x w n = map lower_digit (pad_digits w (nat_digits 16 n))"

definition fmt_0X :: "nat \<Rightarrow> nat \<Rightarrow> string" where
  "fmt_0X w n = map upper_digit (pad_digits w (nat_digits 16 n))"

definition fmt_d :: "nat \<Rightarrow> string" where
  "fmt_d n = map lower_digit (nat_digits 10 n)"

lemma nat_digits_length_pos: "0 < length (nat_digits b n)"
  by (subst nat_digits.simps) simp

lemma nat_digits_length: "1 < b \<Longrightarrow> 0 < w \<Longrightarrow> n < b ^ w \<Longrightarrow> length (nat_digits b n) \<le> w"
proof (induction w arbitrary: n)
  case (Suc w)
  show ?case
  proof (cases "n < b")
    case True
    then show ?thesis by (simp add: nat_digits.simps [of b n])
  next
    case False
    have "n div b < b ^ w"
      using Suc.prems by (simp add: less_mult_imp_div_less mult.commute)
    moreover have "0 < w"
      using Suc.prems False by (cases w) auto
    ultimately show ?thesis
      using Suc False by (simp add: nat_digits.simps [of b n])
  qed
qed simp

lemma length_Encode_ascii:
  assumes "\<forall>c \<in> set s. of_char c < (0x80 :: nat)"
  shows "length (EncodeUTF16LE s) = 2 * Suc (length s)"
proof -
  have "length (utf16_Encode (map of_char s)) = length s"
    using assms by (induction s) (auto simp: utf16_Encode_def utf16_units_def scalar_def)
  then show ?thesis
    by (simp add: length_EncodeUTF16LE runes_of_ascii [OF assms])
qed

text \<open>A padded numeral is the list of the digits at each place, the highest first.\<close>

lemma pad_digits_Suc:
  assumes "1 < b" "0 < w" "n < b ^ Suc w"
  shows "pad_digits (Suc w) (nat_digits b n) = pad_digits w (nat_digits b (n div b)) @ [n mod b]"
proof (cases "n < b")
  case True
  then have "nat_digits b n = [n]" "nat_digits b (n div b) = [0]"
    by (subst nat_digits.simps, simp)+
  moreover have "replicate w (0 :: nat) = replicate (w - 1) 0 @ [0]"
    using assms(2) by (cases w) (simp_all add: replicate_append_same)
  ultimately show ?thesis
    using True by (simp add: pad_digits_def)
next
  case False
  have "n div b < b ^ w"
    using assms by (simp add: less_mult_imp_div_less mult.commute)
  then have "length (nat_digits b (n div b)) \<le> w"
    using assms by (intro nat_digits_length) auto
  with False assms show ?thesis
    by (simp add: pad_digits_def nat_digits.simps [of b n] Suc_diff_le)
qed

text \<open>Only an ASCII byte decodes to an ASCII rune.\<close>

lemma decode_rune_high: "0x80 \<le> b0 \<Longrightarrow> 0x80 \<le> fst (decode_rune b0 r)"
proof -
  assume high: "0x80 \<le> b0"
  have two: "0x80 \<le> b0 mod 32 * 64 + b1 mod 64" if b: "0xC2 \<le> b0" "b0 \<le> 0xDF" for b1
  proof -
    obtain a where a: "b0 = 0xC0 + a" "2 \<le> a" "a < 32"
      using b by (force simp: le_iff_add)
    then show ?thesis by (simp add: low_bits)
  qed
  have three: "0x80 \<le> fst (decode3 b0 b1 b2)" if b: "0xE0 \<le> b0" "b0 \<le> 0xEF" for b1 b2
  proof (cases "b0 = 0xE0 \<and> 0xA0 \<le> b1 \<and> b1 \<le> 0xBF")
    case True
    then obtain k where k: "b1 = 0x80 + k" "32 \<le> k" "k < 64"
      by (force simp: le_iff_add)
    then show ?thesis
      using True by (simp add: decode3_def low_bits)
  next
    case False
    obtain a where a: "b0 = 0xE0 + a" "a < 16"
      using b by (force simp: le_iff_add)
    show ?thesis
      using False a by (cases "a = 0") (auto simp: decode3_def low_bits)
  qed
  have four: "0x80 \<le> fst (decode4 b0 b1 b2 b3)" if b: "0xF0 \<le> b0" "b0 \<le> 0xF4" for b1 b2 b3
  proof (cases "b0 = 0xF0 \<and> 0x90 \<le> b1 \<and> b1 \<le> 0xBF")
    case True
    then obtain k where k: "b1 = 0x80 + k" "16 \<le> k" "k < 64"
      by (force simp: le_iff_add)
    then show ?thesis
      using True by (simp add: decode4_def low_bits)
  next
    case False
    obtain a where a: "b0 = 0xF0 + a" "a < 5"
      using b by (force simp: le_iff_add)
    show ?thesis
      using False a by (cases "a = 0") (auto simp: decode4_def low_bits)
  qed
  show ?thesis
    using high two three four by (auto simp: decode_rune_def split: list.split)
qed

lemma utf8_decode_all_ascii: "\<forall>r \<in> set (utf8_decode bs). r < 0x80 \<Longrightarrow> utf8_decode bs = bs"
proof (induction bs rule: utf8_decode.induct)
  case (2 b0 r)
  obtain c w where d: "decode_rune b0 r = (c, w)"
    by (cases "decode_rune b0 r")
  then have "c < 0x80"
    using "2.prems" by simp
  then have "b0 < 0x80"
    using decode_rune_high [of b0 r] d by (metis fst_conv not_less)
  then have "c = b0" "w = 1"
    using d by (simp_all add: decode_rune_def)
  with 2 d show ?case by simp
qed simp

lemma runes_all_ascii:
  "\<forall>r \<in> set (runes_of_string s). r < 0x80 \<Longrightarrow> map of_char s = runes_of_string s"
  using utf8_decode_all_ascii [of "map of_char s"] by (simp add: runes_of_string_def)

text \<open>Four hexadecimal digits.\<close>

lemma pad_digits_4:
  assumes "n < 0x10000"
  shows "pad_digits 4 (nat_digits 16 n) = [n div 4096, n div 256 mod 16, n div 16 mod 16, n mod 16]"
proof -
  have one: "pad_digits 1 (nat_digits 16 m) = [m]" if "m < 16" for m
    using that by (simp add: pad_digits_def nat_digits.simps [of 16 m])
  have "pad_digits 4 (nat_digits 16 n) = pad_digits 3 (nat_digits 16 (n div 16)) @ [n mod 16]"
    using pad_digits_Suc [of 16 3 n] assms by simp
  moreover have "pad_digits 3 (nat_digits 16 (n div 16)) = pad_digits 2 (nat_digits 16 (n div 16 div 16)) @ [n div 16 mod 16]"
    using pad_digits_Suc [of 16 2 "n div 16"] assms by simp
  moreover have "pad_digits 2 (nat_digits 16 (n div 256)) = pad_digits 1 (nat_digits 16 (n div 256 div 16)) @ [n div 256 mod 16]"
    using pad_digits_Suc [of 16 1 "n div 256"] less_mult_imp_div_less [of n 256 256] assms by (simp add: numeral_2_eq_2)
  moreover have "n div 16 div 16 = n div 256" "n div 256 div 16 = n div 4096"
    by (simp_all add: div_mult2_eq [symmetric])
  moreover have "n div 4096 < 16"
    using assms by simp
  ultimately show ?thesis
    using one by simp
qed

text \<open>Property C32. Names on disk: decoding the UTF-16LE bytes of any Go string (with their
  terminator) never fails and gives the string with every invalid UTF-8 sequence replaced
  by U+FFFD; a valid UTF-8 string comes back unchanged.\<close>

theorem utf16_name_roundtrip:
  "DecodeUTF16LE (EncodeUTF16LE s) = Ok (string_of_runes (runes_of_string s)) \<and>
   (valid_utf8 s \<longrightarrow> DecodeUTF16LE (EncodeUTF16LE s) = Ok s)"
  by (simp add: DecodeUTF16LE_Encode valid_utf8_def)

theorem utf16_name_roundtrip_witness:
  "DecodeUTF16LE (EncodeUTF16LE ''Boot0001'') = Ok ''Boot0001''"
proof -
  have "valid_utf8 ''Boot0001''"
    by (simp add: valid_utf8_ascii)
  with utf16_name_roundtrip show ?thesis by blast
qed

end
