(* ===== verification/Safeio.thy ===== *)
theory Safeio
  imports Uefi_Prelude
begin

text \<open>
  The interface of the third-party module \<open>github.com/go-volumes/safeio\<close>, whose source is not
  part of the repository. It is a parameter of every definition that calls it: a record of
  the functions the package uses. What the package relies on is the predicate
  \<open>safeio_spec\<close>, the behaviour its call sites document: \<open>CheckBounds(off, n, size)\<close> accepts
  exactly the ranges inside \<open>[0, size)\<close>, in exact arithmetic; a \<open>LoopGuard\<close> made for \<open>n\<close> steps
  lets \<open>n\<close> calls of \<open>Next\<close> pass; \<open>MakeBytes(n, max)\<close> allocates \<open>n\<close> zero bytes when
  \<open>0 \<le> n \<le> max\<close>. The guard's state is an opaque type.
\<close>

record 'g safeio =
  CheckBounds :: "int \<Rightarrow> int \<Rightarrow> int \<Rightarrow> go_error option"
  NewLoopGuard :: "int \<Rightarrow> 'g"
  GuardNext :: "'g \<Rightarrow> go_error + 'g"
  MakeBytes :: "int \<Rightarrow> int \<Rightarrow> go_error + bytes"

definition safeio_bounds :: "'g safeio \<Rightarrow> bool" where
  "safeio_bounds sio \<longleftrightarrow>
     (\<forall>off n sz. CheckBounds sio off n sz = None \<longleftrightarrow> 0 \<le> off \<and> 0 \<le> n \<and> off + n \<le> sz)"

fun guard_allows :: "'g safeio \<Rightarrow> 'g \<Rightarrow> nat \<Rightarrow> bool" where
  "guard_allows sio g 0 = True"
| "guard_allows sio g (Suc n) =
     (case GuardNext sio g of Inl e \<Rightarrow> False | Inr g' \<Rightarrow> guard_allows sio g' n)"

definition safeio_guard :: "'g safeio \<Rightarrow> bool" where
  "safeio_guard sio \<longleftrightarrow> (\<forall>n. guard_allows sio (NewLoopGuard sio (int n)) n)"

definition safeio_make :: "'g safeio \<Rightarrow> bool" where
  "safeio_make sio \<longleftrightarrow>
     (\<forall>n mx. 0 \<le> n \<longrightarrow> n \<le> mx \<longrightarrow> MakeBytes sio n mx = Inr (make_bytes (nat n)))"

definition safeio_spec :: "'g safeio \<Rightarrow> bool" where
  "safeio_spec sio \<longleftrightarrow> safeio_bounds sio \<and> safeio_guard sio \<and> safeio_make sio"

lemma CheckBounds_None:
  "safeio_bounds sio \<Longrightarrow> CheckBounds sio off n sz = None \<longleftrightarrow> 0 \<le> off \<and> 0 \<le> n \<and> off + n \<le> sz"
  by (simp add: safeio_bounds_def)

lemma safeio_specD:
  assumes "safeio_spec sio"
  shows "safeio_bounds sio" "safeio_guard sio" "safeio_make sio"
  using assms by (simp_all add: safeio_spec_def)

lemma guard_allows_SucD:
  "guard_allows sio g (Suc n) \<Longrightarrow> \<exists>g'. GuardNext sio g = Inr g' \<and> guard_allows sio g' n"
  by (auto split: sum.splits)

lemma guard_allows_mono: "guard_allows sio g n \<Longrightarrow> m \<le> n \<Longrightarrow> guard_allows sio g m"
proof (induction n arbitrary: g m)
  case (Suc n)
  then show ?case
    by (cases m) (auto split: sum.splits)
qed simp

lemma safeio_guard_allows: "safeio_guard sio \<Longrightarrow> guard_allows sio (NewLoopGuard sio (int n)) n"
  by (simp add: safeio_guard_def)

subsection \<open>An instance\<close>

text \<open>A module that meets the contract: it counts down the steps that are left.\<close>

definition counting_safeio :: "int safeio" where
  "counting_safeio =
     \<lparr> CheckBounds = (\<lambda>off n sz. if 0 \<le> off \<and> 0 \<le> n \<and> off + n \<le> sz then None else Some (ErrForeign 0)),
       NewLoopGuard = (\<lambda>n. n),
       GuardNext = (\<lambda>g. if 0 < g then Inr (g - 1) else Inl (ErrForeign 1)),
       MakeBytes = (\<lambda>n mx. if 0 \<le> n \<and> n \<le> mx then Inr (make_bytes (nat n)) else Inl (ErrForeign 2)) \<rparr>"

lemma counting_safeio_guard: "guard_allows counting_safeio (int n) n"
  by (induction n) (simp_all add: counting_safeio_def)

lemma counting_safeio_spec: "safeio_spec counting_safeio"
  using counting_safeio_guard
  by (simp add: safeio_spec_def safeio_bounds_def safeio_guard_def safeio_make_def)
    (simp add: counting_safeio_def)

end
