(* ===== verification/Nv_Codec.thy ===== *)
theory Nv_Codec
  imports Go_Text Safeio
begin

text \<open>
  The NvVar record codec of uefi.go: the on-disk constants, one variable record
  (\<open>encodeVariable\<close>, \<open>parseOneVariable\<close>), the record list (\<open>serializeVars\<close>, \<open>parseVariables\<close>) and
  the rebuild of a store image (\<open>buildStore\<close>). Offsets and sizes that the source keeps in a
  \<open>uint32\<close> are 32-bit words and wrap; the \<open>int64\<close> sums of a few such values cannot overflow and
  are integers. A Go pair \<open>(value, error)\<close> is a result: the value that accompanies a non-nil
  error is never used by the callers.
\<close>

subsection \<open>Constants\<close>

definition VariableData :: u16 where "VariableData = 0x55AA"
definition StoreFormatted :: byte where "StoreFormatted = 0x5A"
definition StoreHealthy :: byte where "StoreHealthy = 0xFE"
definition VarAdded :: byte where "VarAdded = 0x3F"
definition StoreHeaderSize :: nat where "StoreHeaderSize = 28"
definition VarHeaderSize :: nat where "VarHeaderSize = 32"
definition AuthVarHeaderSize :: nat where "AuthVarHeaderSize = 60"
definition headerAlignment :: int where "headerAlignment = 4"
definition FvHeaderSize :: nat where "FvHeaderSize = 72"
definition fvSignature :: u32 where "fvSignature = 0x4856465F"

lemmas nv_consts = VariableData_def StoreFormatted_def StoreHealthy_def VarAdded_def
  StoreHeaderSize_def VarHeaderSize_def AuthVarHeaderSize_def headerAlignment_def FvHeaderSize_def
  fvSignature_def

type_synonym GUID = byte16
type_synonym Attributes = u32

definition AttrNonVolatile :: Attributes where "AttrNonVolatile = 0x00000001"
definition AttrBootServiceAccess :: Attributes where "AttrBootServiceAccess = 0x00000002"
definition AttrRuntimeAccess :: Attributes where "AttrRuntimeAccess = 0x00000004"
definition AttrHardwareErrorRecord :: Attributes where "AttrHardwareErrorRecord = 0x00000008"
definition AttrTimeBasedAuthenticatedWriteAccess :: Attributes where
  "AttrTimeBasedAuthenticatedWriteAccess = 0x00000020"
definition AttrAppendWrite :: Attributes where "AttrAppendWrite = 0x00000040"

definition EFIVariableGUID :: GUID where
  "EFIVariableGUID = B16 0x16 0x36 0xcf 0xdd 0x75 0x32 0x64 0x41
     0x98 0xb6 0xfe 0x85 0x70 0x7f 0xfe 0x7d"

definition EFIAuthenticatedVariableGUID :: GUID where
  "EFIAuthenticatedVariableGUID = B16 0x78 0x2c 0xf3 0xaa 0x7b 0x94 0x9a 0x43
     0xa1 0x80 0x2e 0x14 0x4e 0xc3 0x77 0x92"

definition EFISystemNvDataFvGUID :: GUID where
  "EFISystemNvDataFvGUID = B16 0x8d 0x2b 0xf1 0xff 0x96 0x76 0x8b 0x4c
     0xa9 0x85 0x27 0x47 0x07 0x5b 0x4f 0x50"

record Variable =
  vName :: string
  vGUID :: GUID
  vAttributes :: Attributes
  vData :: bytes

subsection \<open>Writing records\<close>

definition alignUp :: "u32 \<Rightarrow> u32" where
  "alignUp n = (n + 4 - 1) AND NOT (4 - 1)"

definition padBytes :: "u32 \<Rightarrow> bytes" where
  "padBytes n = make_bytes (unat (alignUp n - n))"

definition record_header :: "Variable \<Rightarrow> u32 \<Rightarrow> u32 \<Rightarrow> bool \<Rightarrow> bytes" where
  "record_header v nameSize dataSize authVars =
     le16_bytes VariableData @ [VarAdded, 0] @ le32_bytes (vAttributes v) @
     (if authVars then make_bytes 8 @ make_bytes 16 @ make_bytes 4 else []) @
     le32_bytes nameSize @ le32_bytes dataSize @ bytes_of16 (vGUID v)"

definition encodeVariable :: "Variable \<Rightarrow> bool \<Rightarrow> bytes" where
  "encodeVariable v authVars =
     (let nameBuf = EncodeUTF16LE (vName v);
          nameSize = of_nat (length nameBuf);
          dataSize = of_nat (length (vData v));
          hdr = record_header v nameSize dataSize authVars;
          recordPad = padBytes (of_nat (length hdr) + nameSize + dataSize)
      in hdr @ nameBuf @ vData v @ recordPad)"

definition serializeVars :: "Variable list \<Rightarrow> bool \<Rightarrow> bytes" where
  "serializeVars vars authVars = concat (map (\<lambda>v. encodeVariable v authVars) vars)"

subsection \<open>Reading records\<close>

text \<open>The fields that differ between the two layouts: header size, NameSize, DataSize, VendorGuid.\<close>

definition header_fields :: "bytes \<Rightarrow> u32 \<Rightarrow> u32 \<Rightarrow> bool \<Rightarrow> (u32 \<times> u32 \<times> u32 \<times> GUID) res" where
  "header_fields data off end' authVars =
     (if authVars then
        let hdrSize = of_nat AuthVarHeaderSize in
        if end' < off + hdrSize then Err (Leaf ''auth header truncated'')
        else
          bindR (bindR (slice_from data (unat (off + 36))) Uint32) (\<lambda>nameSize.
          bindR (bindR (slice_from data (unat (off + 40))) Uint32) (\<lambda>dataSize.
          bindR (slice data (unat (off + 44)) (unat (off + 60))) (\<lambda>g.
          Ok (hdrSize, nameSize, dataSize, copy16 g))))
      else
        let hdrSize = of_nat VarHeaderSize in
        if end' < off + hdrSize then Err (Leaf ''header truncated'')
        else
          bindR (bindR (slice_from data (unat (off + 8))) Uint32) (\<lambda>nameSize.
          bindR (bindR (slice_from data (unat (off + 12))) Uint32) (\<lambda>dataSize.
          bindR (slice data (unat (off + 16)) (unat (off + 32))) (\<lambda>g.
          Ok (hdrSize, nameSize, dataSize, copy16 g)))))"

text \<open>From the sizes on: bounds, next offset, and the variable of a \<open>VarAdded\<close> record.\<close>

definition record_body ::
  "'g safeio \<Rightarrow> bytes \<Rightarrow> u32 \<Rightarrow> u32 \<Rightarrow> byte \<Rightarrow> Attributes \<Rightarrow> u32 \<times> u32 \<times> u32 \<times> GUID \<Rightarrow>
    (Variable option \<times> u32) res" where
  "record_body sio data off end' state attrs flds =
     (case flds of (hdrSize, nameSize, dataSize, guid) \<Rightarrow>
      let nameOff64 = uint off + uint hdrSize;
          dataOff64 = nameOff64 + uint nameSize;
          dataEnd64 = dataOff64 + uint dataSize;
          next64 = (dataEnd64 + headerAlignment - 1) AND NOT (headerAlignment - 1) in
      check (CheckBounds sio nameOff64 (uint nameSize) (uint end')) ''variable name extends beyond store: %w'' (
      check (CheckBounds sio dataOff64 (uint dataSize) (uint end')) ''variable data extends beyond store: %w'' (
      if next64 > uint end' then Err (Leaf ''variable extends beyond store'')
      else
        let next = word_of_int next64; nameOff = word_of_int nameOff64; dataOff = word_of_int dataOff64 in
        if state \<noteq> VarAdded then Ok (None, next)
        else
          bindR (slice data (unat nameOff) (unat (nameOff + nameSize))) (\<lambda>nb.
          case DecodeUTF16LE nb of
            Panic \<Rightarrow> Panic
          | Err _ \<Rightarrow> Ok (None, next)
          | Ok name \<Rightarrow>
              (case MakeBytes sio (uint dataSize) (uint end') of
                 Inl _ \<Rightarrow> Ok (None, next)
               | Inr payload \<Rightarrow>
                   bindR (slice data (unat dataOff) (unat (dataOff + dataSize))) (\<lambda>d.
                   Ok (Some \<lparr> vName = name, vGUID = guid, vAttributes = attrs,
                              vData = copy_bytes payload d \<rparr>, next)))))))"

definition parseOneVariable ::
  "'g safeio \<Rightarrow> bytes \<Rightarrow> u32 \<Rightarrow> u32 \<Rightarrow> bool \<Rightarrow> (Variable option \<times> u32) res" where
  "parseOneVariable sio data off end' authVars =
     (if off + 2 > end' then Err (Leaf ''end of variable region'')
      else
        bindR (bindR (slice data (unat off) (unat (off + 2))) Uint16) (\<lambda>startId.
        if startId \<noteq> VariableData then Err (Leaf ''end of variable region'')
        else
          check (CheckBounds sio (uint off) 8 (uint end')) ''variable header prefix truncated: %w'' (
          bindR (index data (unat (off + 2))) (\<lambda>state.
          bindR (bindR (slice_from data (unat (off + 4))) Uint32) (\<lambda>attrs.
          bindR (header_fields data off end' authVars) (\<lambda>flds.
          record_body sio data off end' state attrs flds))))))"

text \<open>The walk. Its offset strictly grows below \<open>end\<close>, which is why it ends with any guard.\<close>

function parse_loop ::
  "'g safeio \<Rightarrow> bytes \<Rightarrow> u32 \<Rightarrow> bool \<Rightarrow> int \<Rightarrow> 'g \<Rightarrow> u32 \<Rightarrow> Variable list \<Rightarrow> Variable list res" where
  "parse_loop sio data end' authVars maxVars guard off vars =
     (if off + 2 \<le> end' then
        (case GuardNext sio guard of
           Inl _ \<Rightarrow> Ok vars
         | Inr guard' \<Rightarrow>
             (case parseOneVariable sio data off end' authVars of
                Panic \<Rightarrow> Panic
              | Err _ \<Rightarrow> Ok vars
              | Ok (v, next) \<Rightarrow>
                  if next \<le> off \<or> next > end' then Ok vars
                  else
                    (case v of
                       None \<Rightarrow> parse_loop sio data end' authVars maxVars guard' next vars
                     | Some v' \<Rightarrow>
                         if int (length vars) \<ge> maxVars
                         then Err (Wrap ''store holds more than %d variables: %w'' ErrTooLarge)
                         else parse_loop sio data end' authVars maxVars guard' next (vars @ [v']))))
      else Ok vars)"
  by pat_completeness auto
termination
  by (relation "measure (\<lambda>(sio, data, end', authVars, maxVars, guard, off, vars). unat end' - unat off)")
    (auto simp: word_less_nat_alt word_le_nat_alt)

declare parse_loop.simps [simp del]

definition parseVariables ::
  "'g safeio \<Rightarrow> bytes \<Rightarrow> u32 \<Rightarrow> u32 \<Rightarrow> bool \<Rightarrow> int \<Rightarrow> Variable list res" where
  "parseVariables sio data storeOff storeSize authVars maxVars =
     (let end64 = uint storeOff + uint storeSize;
          end64' = (if end64 > int (length data) then int (length data) else end64);
          end' = word_of_int end64';
          off = storeOff + of_nat StoreHeaderSize;
          guard = NewLoopGuard sio (uint end' + 1)
      in parse_loop sio data end' authVars maxVars guard off [])"

subsection \<open>Rebuilding the image\<close>

definition buildStore :: "bytes \<Rightarrow> u32 \<Rightarrow> u32 \<Rightarrow> bytes \<Rightarrow> bytes res" where
  "buildStore orig storeOff storeSize payload =
     (let headerEnd = uint storeOff + int StoreHeaderSize;
          end64 = uint storeOff + uint storeSize in
      if end64 > int (length orig) then Err (Leaf ''uefi: store extends beyond the file'')
      else if headerEnd + int (length payload) > end64
      then Err (Leaf ''uefi: variables exceed store size'')
      else
        let buf = copy_bytes (make_bytes (length orig)) orig in
        bindR (fill buf (nat headerEnd) (nat end64 - nat headerEnd) 0xFF) (\<lambda>buf'.
        copy_at buf' (nat headerEnd) payload))"

subsection \<open>Sizes of encoded records\<close>

definition hdr_size :: "bool \<Rightarrow> nat" where
  "hdr_size authVars = (if authVars then AuthVarHeaderSize else VarHeaderSize)"

definition raw_size :: "Variable \<Rightarrow> bool \<Rightarrow> nat" where
  "raw_size v authVars = hdr_size authVars + length (EncodeUTF16LE (vName v)) + length (vData v)"

lemma length_record_header [simp]: "length (record_header v ns ds a) = hdr_size a"
  by (simp add: record_header_def hdr_size_def nv_consts)

lemma hdr_size_bounds: "32 \<le> hdr_size a" "hdr_size a \<le> 60" "hdr_size a mod 4 = 0"
  by (simp_all add: hdr_size_def nv_consts)

lemma length_padBytes: "unat n + 3 < 2 ^ 32 \<Longrightarrow> length (padBytes n) = align4 (unat n) - unat n"
proof -
  assume small: "unat n + 3 < 2 ^ 32"
  then have "unat (3 + n) = unat n + 3"
    by (subst unat_plus) simp_all
  then have al: "unat (alignUp n) = align4 (unat n)"
    by (simp add: alignUp_def align4_def unat_and_not_3)
  then have "n \<le> alignUp n"
    using align4_bounds(1) by (simp add: word_le_nat_alt)
  then show ?thesis
    by (simp add: padBytes_def unat_sub al)
qed

lemma raw_size_le_encode: "raw_size v a \<le> length (encodeVariable v a)"
  by (simp add: encodeVariable_def raw_size_def Let_def)

lemma encodeVariable_eq:
  assumes "raw_size v a + 3 < 2 ^ 32"
  shows "encodeVariable v a =
    record_header v (of_nat (length (EncodeUTF16LE (vName v)))) (of_nat (length (vData v))) a @
    EncodeUTF16LE (vName v) @ vData v @ make_bytes (align4 (raw_size v a) - raw_size v a)"
proof -
  have eq: "of_nat (hdr_size a) + of_nat (length (EncodeUTF16LE (vName v))) + of_nat (length (vData v)) =
      (of_nat (raw_size v a) :: u32)"
    by (simp add: raw_size_def)
  have "unat (of_nat (raw_size v a) :: u32) = raw_size v a"
    using assms by (intro unat_of_nat_u32) simp
  then have "padBytes (of_nat (raw_size v a)) = make_bytes (align4 (raw_size v a) - raw_size v a)"
    using assms length_padBytes [of "of_nat (raw_size v a)"] by (simp add: padBytes_def)
  with eq show ?thesis
    by (simp add: encodeVariable_def Let_def)
qed

lemma length_encodeVariable:
  "raw_size v a + 3 < 2 ^ 32 \<Longrightarrow> length (encodeVariable v a) = align4 (raw_size v a)"
  using align4_bounds(1) [of "raw_size v a"]
  by (simp add: encodeVariable_eq) (simp add: raw_size_def)

subsection \<open>One record: what a successful read is\<close>

lemma next64_eq: "(int n + headerAlignment - 1) AND NOT (headerAlignment - 1) = int (align4 n)"
  by (simp add: headerAlignment_def align4_def int_and_not_3 zdiv_int add.commute)

definition record_var :: "bytes \<Rightarrow> nat \<Rightarrow> byte \<Rightarrow> Attributes \<Rightarrow> nat \<Rightarrow> nat \<Rightarrow> GUID \<Rightarrow> Variable option" where
  "record_var data nameOff state attrs ns ds guid =
     (if state \<noteq> VarAdded then None
      else case DecodeUTF16LE (take ns (drop nameOff data)) of
          Ok name \<Rightarrow> Some \<lparr> vName = name, vGUID = guid, vAttributes = attrs,
                              vData = take ds (drop (nameOff + ns) data) \<rparr>
        | _ \<Rightarrow> None)"

text \<open>
  The body of a record accepts exactly the records whose aligned end lies inside the
  region, and otherwise returns an error: the bounds checks leave no third outcome.
\<close>

lemma record_body_inside:
  assumes sb: "safeio_bounds sio" and sm: "safeio_make sio" and len: "unat end' \<le> length data"
    and fit: "align4 (unat off + unat hs + unat ns + unat ds) \<le> unat end'"
  shows "record_body sio data off end' state attrs (hs, ns, ds, guid) =
    Ok (record_var data (unat off + unat hs) state attrs (unat ns) (unat ds) guid,
        of_nat (align4 (unat off + unat hs + unat ns + unat ds)))"
proof -
  let ?n = "unat off + unat hs"
  let ?e = "?n + unat ns + unat ds"
  have e: "?e \<le> unat end'" "unat end' < 2 ^ 32"
    using fit align4_bounds(1) [of ?e] unat_u32_less [of end'] by linarith+
  have offs: "unat (off + hs) = ?n" "unat (off + hs + ns) = ?n + unat ns" "unat (off + hs + ns + ds) = ?e"
    using e by (simp_all add: unat_plus)
  have words: "word_of_int (uint off + uint hs) = off + hs"
    "word_of_int (uint off + uint hs + uint ns) = off + hs + ns"
    by simp_all
  note uints_nat = uint_nat [of off] uint_nat [of hs]
    uint_nat [of ns] uint_nat [of ds] uint_nat [of end']
  have uints: "uint off + uint hs + uint ns \<le> uint end'" "uint off + uint hs + uint ns + uint ds \<le> uint end'"
    using e uints_nat by linarith+
  then have checks: "CheckBounds sio (uint off + uint hs) (uint ns) (uint end') = None"
    "CheckBounds sio (uint off + uint hs + uint ns) (uint ds) (uint end') = None"
    by (simp_all add: CheckBounds_None [OF sb])
  have nxt: "(uint off + uint hs + uint ns + uint ds + headerAlignment - 1) AND NOT (headerAlignment - 1)
      = int (align4 ?e)"
    using next64_eq [of ?e] by (simp only: of_nat_add of_nat_unat)
  have mk: "MakeBytes sio (uint ds) (uint end') = Inr (make_bytes (unat ds))"
  proof -
    have "0 \<le> uint ds" "uint ds \<le> uint end'"
      using e uints_nat by linarith+
    then show ?thesis
      using sm by (simp add: safeio_make_def)
  qed
  have sl: "slice data ?n (?n + unat ns) = Ok (take (unat ns) (drop ?n data))"
    "slice data (?n + unat ns) ?e = Ok (take (unat ds) (drop (?n + unat ns) data))"
    using e len by (simp_all add: slice_Ok)
  have fit': "\<not> int (align4 ?e) > uint end'"
    using fit uints_nat by linarith
  show ?thesis
    unfolding record_body_def record_var_def Let_def prod.case checks nxt check_None words offs sl mk
      bindR.simps sum.case word_of_int_int
    using fit' e len by (auto simp: copy_bytes_def split: res.split)
qed

lemma record_body_outside:
  assumes sb: "safeio_bounds sio"
    and out: "unat end' < align4 (unat off + unat hs + unat ns + unat ds)"
  shows "\<exists>e. record_body sio data off end' state attrs (hs, ns, ds, guid) = Err e"
proof -
  have nxt: "(uint off + uint hs + uint ns + uint ds + headerAlignment - 1) AND NOT (headerAlignment - 1)
      = int (align4 (unat off + unat hs + unat ns + unat ds))"
    using next64_eq [of "unat off + unat hs + unat ns + unat ds"] by (simp only: of_nat_add of_nat_unat)
  have "int (align4 (unat off + unat hs + unat ns + unat ds)) > uint end'"
    using out uint_nat [of end'] by linarith
  then show ?thesis
    unfolding record_body_def Let_def prod.case nxt
    by (simp add: check_def split: option.split)
qed

subsection \<open>The record at an offset, without machine arithmetic\<close>

definition u16_at :: "bytes \<Rightarrow> nat \<Rightarrow> u16" where
  "u16_at b i = le16 (b ! i) (b ! (i + 1))"

definition u32_at :: "bytes \<Rightarrow> nat \<Rightarrow> u32" where
  "u32_at b i = le32 (b ! i) (b ! (i + 1)) (b ! (i + 2)) (b ! (i + 3))"

definition name_size :: "bytes \<Rightarrow> nat \<Rightarrow> bool \<Rightarrow> nat" where
  "name_size data o' a = unat (u32_at data (o' + hdr_size a - 24))"

definition data_size :: "bytes \<Rightarrow> nat \<Rightarrow> bool \<Rightarrow> nat" where
  "data_size data o' a = unat (u32_at data (o' + hdr_size a - 20))"

definition record_next :: "bytes \<Rightarrow> nat \<Rightarrow> bool \<Rightarrow> nat" where
  "record_next data o' a = align4 (o' + hdr_size a + name_size data o' a + data_size data o' a)"

definition record_ok :: "bytes \<Rightarrow> nat \<Rightarrow> nat \<Rightarrow> bool \<Rightarrow> bool" where
  "record_ok data o' e a \<longleftrightarrow>
     o' + hdr_size a \<le> e \<and> u16_at data o' = VariableData \<and> record_next data o' a \<le> e"

definition record_value :: "bytes \<Rightarrow> nat \<Rightarrow> bool \<Rightarrow> Variable option" where
  "record_value data o' a =
     record_var data (o' + hdr_size a) (data ! (o' + 2)) (u32_at data (o' + 4))
       (name_size data o' a) (data_size data o' a) (copy16 (take 16 (drop (o' + hdr_size a - 16) data)))"

lemma record_next_gt: "o' < record_next data o' a"
  using align4_bounds(1) [of "o' + hdr_size a + name_size data o' a + data_size data o' a"] hdr_size_bounds(1) [of a]
  by (simp add: record_next_def)

lemma u16_at_slice: "i + 2 \<le> length b \<Longrightarrow> j = i + 2 \<Longrightarrow> bindR (slice b i j) Uint16 = Ok (u16_at b i)"
  by (simp add: slice_Ok Uint16_def u16_at_def)

lemma u32_at_slice: "i + 4 \<le> length b \<Longrightarrow> bindR (slice_from b i) Uint32 = Ok (u32_at b i)"
  by (simp add: slice_from_Ok Uint32_def u32_at_def)

lemma unat_off_plus: "unat off + 64 \<le> 2 ^ 32 \<Longrightarrow> unat k \<le> 60 \<Longrightarrow> unat (off + k) = unat off + unat k"
  for off k :: u32
  by (rule unat_plus) simp

lemma unat_hdr_size: "unat (of_nat (hdr_size a) :: u32) = hdr_size a"
  using hdr_size_bounds [of a] by (intro unat_of_nat_u32) simp

lemma header_fields_inside:
  assumes "unat off + 64 \<le> 2 ^ 32" "unat off + hdr_size a \<le> unat end'" "unat end' \<le> length data"
  shows "header_fields data off end' a =
    Ok (of_nat (hdr_size a), u32_at data (unat off + hdr_size a - 24), u32_at data (unat off + hdr_size a - 20),
        copy16 (take 16 (drop (unat off + hdr_size a - 16) data)))"
  using assms
  by (cases a; simp add: header_fields_def hdr_size_def nv_consts word_less_nat_alt unat_off_plus
      u32_at_slice slice_Ok; simp add: add.commute)

lemma header_fields_outside:
  assumes "unat off + 64 \<le> 2 ^ 32" "unat end' < unat off + hdr_size a"
  shows "\<exists>e. header_fields data off end' a = Err e"
  using assms
  by (cases a) (simp_all add: header_fields_def hdr_size_def nv_consts word_less_nat_alt unat_off_plus)

text \<open>
  \<open>parseOneVariable\<close> succeeds exactly on a complete record, and its answer is the record's
  value and the aligned offset after it. There is no input on which it panics, as long as
  the offset is at least 64 bytes below the wrap-around of \<open>uint32\<close>.
\<close>

lemma parseOneVariable_ok:
  assumes sb: "safeio_bounds sio" and sm: "safeio_make sio" and off: "unat off + 64 \<le> 2 ^ 32"
    and len: "unat end' \<le> length data" and ok: "record_ok data (unat off) (unat end') a"
  shows "parseOneVariable sio data off end' a =
    Ok (record_value data (unat off) a, of_nat (record_next data (unat off) a))"
proof -
  note b = hdr_size_bounds(1) [of a]
  have fit: "unat off + hdr_size a \<le> unat end'" "record_next data (unat off) a \<le> unat end'"
    and id: "u16_at data (unat off) = VariableData"
    using ok by (simp_all add: record_ok_def)
  have unats: "unat (off + 2) = unat off + 2" "unat (off + 4) = unat off + 4"
    using off by (simp_all add: unat_off_plus)
  have cb: "CheckBounds sio (uint off) 8 (uint end') = None"
    using fit(1) b uint_nat [of off] uint_nat [of end'] by (subst CheckBounds_None [OF sb]) linarith
  have "record_body sio data off end' (data ! (unat off + 2)) (u32_at data (unat off + 4))
      (of_nat (hdr_size a), u32_at data (unat off + hdr_size a - 24), u32_at data (unat off + hdr_size a - 20),
        copy16 (take 16 (drop (unat off + hdr_size a - 16) data))) =
      Ok (record_value data (unat off) a, of_nat (record_next data (unat off) a))"
    using fit(2) by (subst record_body_inside [OF sb sm len])
      (simp_all add: record_next_def record_value_def name_size_def data_size_def unat_hdr_size)
  moreover have "unat off + 32 \<le> length data"
    using fit(1) b len by linarith
  ultimately show ?thesis
    using fit(1) b id cb unats header_fields_inside [OF off fit(1) len]
    by (simp add: parseOneVariable_def u16_at_slice u32_at_slice index_Ok word_less_nat_alt)
qed

lemma parseOneVariable_err:
  assumes sb: "safeio_bounds sio" and off: "unat off + 64 \<le> 2 ^ 32"
    and len: "unat end' \<le> length data" and bad: "\<not> record_ok data (unat off) (unat end') a"
  shows "\<exists>e. parseOneVariable sio data off end' a = Err e"
proof (cases "unat off + 2 \<le> unat end' \<and> u16_at data (unat off) = VariableData \<and> unat off + 8 \<le> unat end'")
  case True
  have unats: "unat (off + 2) = unat off + 2" "unat (off + 4) = unat off + 4"
    using off by (simp_all add: unat_off_plus)
  have "\<exists>e. bindR (header_fields data off end' a)
      (record_body sio data off end' (data ! (unat off + 2)) (u32_at data (unat off + 4))) = Err e"
  proof (cases "unat off + hdr_size a \<le> unat end'")
    case inside: True
    then have "unat end' < record_next data (unat off) a"
      using True bad by (auto simp: record_ok_def)
    then have "\<exists>e. record_body sio data off end' (data ! (unat off + 2)) (u32_at data (unat off + 4))
      (of_nat (hdr_size a), u32_at data (unat off + hdr_size a - 24), u32_at data (unat off + hdr_size a - 20),
        copy16 (take 16 (drop (unat off + hdr_size a - 16) data))) = Err e"
      by (intro record_body_outside [OF sb]) (simp add: record_next_def name_size_def data_size_def unat_hdr_size)
    then show ?thesis
      using header_fields_inside [OF off inside len] by simp
  next
    case False
    then show ?thesis
      using header_fields_outside [OF off, of end' a data] by auto
  qed
  moreover have "unat off + 8 \<le> length data"
    using True len by linarith
  ultimately show ?thesis
    using True unats
    by (auto simp: parseOneVariable_def u16_at_slice u32_at_slice index_Ok word_less_nat_alt check_def
        split: option.split)
next
  case False
  have unats: "unat (off + 2) = unat off + 2"
    using off by (simp add: unat_off_plus)
  have cb: "CheckBounds sio (uint off) 8 (uint end') \<noteq> None" if "\<not> unat off + 8 \<le> unat end'"
    using that uint_nat [of off] uint_nat [of end'] by (subst CheckBounds_None [OF sb]) linarith
  show ?thesis
  proof (cases "unat off + 2 \<le> unat end'")
    case True
    then have "unat off + 2 \<le> length data"
      using len by linarith
    with False True cb unats show ?thesis
      by (auto simp: parseOneVariable_def u16_at_slice word_less_nat_alt check_def)
  next
    case False
    with unats show ?thesis
      by (simp add: parseOneVariable_def word_less_nat_alt)
  qed
qed

subsection \<open>The walk, without guard, words or limits\<close>

function walk :: "bytes \<Rightarrow> nat \<Rightarrow> bool \<Rightarrow> nat \<Rightarrow> Variable list" where
  "walk data e a o' =
     (if record_ok data o' e a then
        (case record_value data o' a of None \<Rightarrow> [] | Some v \<Rightarrow> [v]) @ walk data e a (record_next data o' a)
      else [])"
  by pat_completeness auto
termination
proof (relation "measure (\<lambda>(data, e, a, o'). e - o')")
  fix data e a o'
  assume "record_ok data o' e a"
  then show "((data, e, a, record_next data o' a), data, e, a, o') \<in> measure (\<lambda>(data, e, a, o'). e - o')"
    using record_next_gt [of o' data a] by (auto simp: record_ok_def)
qed simp

declare walk.simps [simp del]

definition limited :: "int \<Rightarrow> Variable list \<Rightarrow> Variable list \<Rightarrow> Variable list res" where
  "limited maxVars vars ws =
     (if ws = [] \<or> int (length vars + length ws) \<le> maxVars then Ok (vars @ ws)
      else Err (Wrap ''store holds more than %d variables: %w'' ErrTooLarge))"

lemma parse_loop_walk:
  assumes sb: "safeio_bounds sio" and sm: "safeio_make sio" and len: "unat end' \<le> length data"
    and top: "unat end' + 64 \<le> 2 ^ 32"
  shows "unat off + 64 \<le> 2 ^ 32 \<Longrightarrow> guard_allows sio g (Suc (unat end') - unat off) \<Longrightarrow>
    parse_loop sio data end' a maxVars g off vars = limited maxVars vars (walk data (unat end') a (unat off))"
proof (induction "unat end' - unat off" arbitrary: off g vars rule: less_induct)
  case less
  have step2: "off + 2 \<le> end' \<longleftrightarrow> unat off + 2 \<le> unat end'"
    using less.prems(1) by (simp add: word_le_nat_alt unat_off_plus)
  show ?case
  proof (cases "record_ok data (unat off) (unat end') a")
    case False
    then have w: "walk data (unat end') a (unat off) = []"
      by (subst walk.simps) simp
    obtain e where "parseOneVariable sio data off end' a = Err e"
      using parseOneVariable_err [OF sb less.prems(1) len False] ..
    then show ?thesis
      unfolding w by (subst parse_loop.simps) (simp add: limited_def split: sum.split)
  next
    case True
    let ?n = "record_next data (unat off) a"
    have fit: "unat off + 2 \<le> unat end'" "?n \<le> unat end'"
      using True hdr_size_bounds(1) [of a] by (simp_all add: record_ok_def)
    have nx: "unat (of_nat ?n :: u32) = ?n"
      using fit(2) top by (intro unat_of_nat_u32) linarith
    have gt: "unat off < ?n"
      by (rule record_next_gt)
    then have advance: "\<not> (of_nat ?n \<le> off \<or> of_nat ?n > end')"
      using fit(2) nx by (simp add: word_le_nat_alt word_less_nat_alt)
    have "Suc (unat end') - unat off = Suc (unat end' - unat off)"
      using fit(1) by simp
    with less.prems(2) obtain g' where g': "GuardNext sio g = Inr g'" "guard_allows sio g' (unat end' - unat off)"
      using guard_allows_SucD by metis
    have allow: "guard_allows sio g' (Suc (unat end') - unat (of_nat ?n :: u32))"
      using g'(2) by (rule guard_allows_mono) (use nx gt in linarith)
    have IH: "parse_loop sio data end' a maxVars g' (of_nat ?n) vs =
        limited maxVars vs (walk data (unat end') a ?n)" for vs
      using less.hyps [of "of_nat ?n" g' vs] allow gt fit top nx by simp
    have w: "walk data (unat end') a (unat off) =
        (case record_value data (unat off) a of None \<Rightarrow> [] | Some v \<Rightarrow> [v]) @ walk data (unat end') a ?n"
      using True by (subst walk.simps) simp
    show ?thesis
      unfolding w using fit(1) step2 g'(1) parseOneVariable_ok [OF sb sm less.prems(1) len True] advance IH
      by (subst parse_loop.simps) (auto simp: limited_def split: option.split)
  qed
qed

lemma parseVariables_eq_walk:
  assumes spec: "safeio_spec sio" and len: "length data + 64 \<le> 2 ^ 32" and off: "unat storeOff + 92 \<le> 2 ^ 32"
  shows "parseVariables sio data storeOff storeSize a maxVars =
    limited maxVars [] (walk data (min (unat storeOff + unat storeSize) (length data)) a (unat storeOff + StoreHeaderSize))"
proof -
  let ?e = "min (unat storeOff + unat storeSize) (length data)"
  have e64: "(if uint storeOff + uint storeSize > int (length data) then int (length data)
      else uint storeOff + uint storeSize) = int ?e"
    using uint_nat [of storeOff] uint_nat [of storeSize] by (auto simp only: of_nat_add min_def split: if_splits)
  have e: "unat (word_of_int (int ?e) :: u32) = ?e"
    unfolding word_of_int_int using len by (intro unat_of_nat_u32) linarith
  have o28: "unat (storeOff + of_nat StoreHeaderSize) = unat storeOff + StoreHeaderSize"
    using off by (subst unat_plus) (simp_all add: nv_consts)
  have "uint (word_of_int (int ?e) :: u32) + 1 = int (Suc ?e)"
    using e uint_nat [of "word_of_int (int ?e) :: u32"] by linarith
  then have "guard_allows sio (NewLoopGuard sio (uint (word_of_int (int ?e) :: u32) + 1)) (Suc ?e)"
    using safeio_guard_allows [OF safeio_specD(2) [OF spec], of "Suc ?e"] by presburger
  then have "guard_allows sio (NewLoopGuard sio (uint (word_of_int (int ?e) :: u32) + 1))
      (Suc ?e - (unat storeOff + StoreHeaderSize))"
    by (rule guard_allows_mono) simp
  then show ?thesis
    unfolding parseVariables_def Let_def e64
    by (subst parse_loop_walk [OF safeio_specD(1,3) [OF spec]])
      (use e o28 len off in \<open>simp_all add: nv_consts\<close>)
qed

lemma limited_not_Panic [simp]: "limited m vs ws \<noteq> Panic"
  by (simp add: limited_def)

subsection \<open>Reading back what was written\<close>

text \<open>The variable that reading an encoded record yields: the name after the two conversions.\<close>

definition stored_var :: "Variable \<Rightarrow> Variable" where
  "stored_var v = v\<lparr>vName := string_of_runes (runes_of_string (vName v))\<rparr>"

lemma stored_var_valid: "valid_utf8 (vName v) \<Longrightarrow> stored_var v = v"
  by (simp add: stored_var_def valid_utf8_def)

lemma u16_at_append: "u16_at (p @ le16_bytes w @ r) (length p) = w"
  by (simp add: u16_at_def nth_append le16_bytes_def le16_roundtrip)

lemma u32_at_append: "u32_at (p @ le32_bytes w @ r) (length p) = w"
  by (simp add: u32_at_def nth_append le32_bytes_def le32_roundtrip)

text \<open>The bytes of a header before its two size fields.\<close>

definition header_prefix :: "Variable \<Rightarrow> bool \<Rightarrow> bytes" where
  "header_prefix v a = le16_bytes VariableData @ [VarAdded, 0] @ le32_bytes (vAttributes v) @
     (if a then make_bytes 8 @ make_bytes 16 @ make_bytes 4 else [])"

lemma length_header_prefix: "length (header_prefix v a) = hdr_size a - 24"
  by (simp add: header_prefix_def hdr_size_def nv_consts)

lemma record_header_prefix:
  "record_header v ns ds a = header_prefix v a @ le32_bytes ns @ le32_bytes ds @ bytes_of16 (vGUID v)"
  by (simp add: record_header_def header_prefix_def)

lemma header_read:
  "u16_at (record_header v ns ds a @ r) 0 = VariableData"
  "(record_header v ns ds a @ r) ! 2 = VarAdded"
  "u32_at (record_header v ns ds a @ r) 4 = vAttributes v"
  "u32_at (record_header v ns ds a @ r) (hdr_size a - 24) = ns"
  "u32_at (record_header v ns ds a @ r) (hdr_size a - 20) = ds"
  "take 16 (drop (hdr_size a - 16) (record_header v ns ds a @ r)) = bytes_of16 (vGUID v)"
proof -
  have b: "hdr_size a - 20 = hdr_size a - 24 + 4" "hdr_size a - 16 = hdr_size a - 24 + 8"
    using hdr_size_bounds(1) [of a] by linarith+
  show "u16_at (record_header v ns ds a @ r) 0 = VariableData"
    using u16_at_append [of "[]" VariableData] by (simp add: record_header_def)
  show "(record_header v ns ds a @ r) ! 2 = VarAdded"
    by (simp add: record_header_def nth_append)
  show "u32_at (record_header v ns ds a @ r) 4 = vAttributes v"
    using u32_at_append [of "le16_bytes VariableData @ [VarAdded, 0]" "vAttributes v"]
    by (simp add: record_header_def)
  show "u32_at (record_header v ns ds a @ r) (hdr_size a - 24) = ns"
    using u32_at_append [of "header_prefix v a" ns]
    by (simp add: record_header_prefix length_header_prefix)
  show "u32_at (record_header v ns ds a @ r) (hdr_size a - 20) = ds"
    using u32_at_append [of "header_prefix v a @ le32_bytes ns" ds]
    by (simp add: record_header_prefix length_header_prefix b)
  show "take 16 (drop (hdr_size a - 16) (record_header v ns ds a @ r)) = bytes_of16 (vGUID v)"
    by (simp add: record_header_prefix length_header_prefix b)
qed

lemma u_at_drop: "o' \<le> length b \<Longrightarrow> u16_at (drop o' b) i = u16_at b (o' + i)"
  "o' \<le> length b \<Longrightarrow> u32_at (drop o' b) i = u32_at b (o' + i)"
  by (simp_all add: u16_at_def u32_at_def add.assoc)

lemma record_of_encode:
  assumes d: "drop o' data = encodeVariable v a @ r" and o': "o' \<le> length data" "o' mod 4 = 0"
    and small: "raw_size v a + 3 < 2 ^ 32"
  shows "u16_at data o' = VariableData" "record_next data o' a = o' + length (encodeVariable v a)"
    "record_value data o' a = Some (stored_var v)"
proof -
  let ?nb = "EncodeUTF16LE (vName v)"
  let ?rest = "?nb @ vData v @ make_bytes (align4 (raw_size v a) - raw_size v a) @ r"
  let ?hdr = "record_header v (of_nat (length ?nb)) (of_nat (length (vData v))) a"
  have D: "drop o' data = ?hdr @ ?rest"
    using d encodeVariable_eq [OF small] by simp
  note h = header_read [where v = v and ns = "of_nat (length ?nb)" and ds = "of_nat (length (vData v))"
      and a = a and r = ?rest, folded D]
  have b: "24 \<le> hdr_size a" "20 \<le> hdr_size a" "16 \<le> hdr_size a"
    using hdr_size_bounds(1) [of a] by linarith+
  have ns: "name_size data o' a = length ?nb" and ds: "data_size data o' a = length (vData v)"
    using h(4,5) o'(1) b small
    by (simp_all add: name_size_def data_size_def u_at_drop unat_of_nat_u32 raw_size_def)
  have "o' + hdr_size a + name_size data o' a + data_size data o' a = o' + raw_size v a"
    by (simp add: ns ds raw_size_def)
  then show "record_next data o' a = o' + length (encodeVariable v a)"
    unfolding record_next_def by (simp only: length_encodeVariable [OF small] align4_add [OF o'(2)])
  show "u16_at data o' = VariableData"
    using h(1) o'(1) by (simp add: u_at_drop)
  have "drop (o' + hdr_size a) data = ?rest"
    using arg_cong [OF D, of "drop (hdr_size a)"] by (simp add: add.commute)
  moreover have "drop (o' + hdr_size a + length ?nb) data = drop (length ?nb) (drop (o' + hdr_size a) data)"
    by (simp add: ac_simps)
  moreover have "data ! (o' + 2) = VarAdded" "u32_at data (o' + 4) = vAttributes v"
    "take 16 (drop (o' + hdr_size a - 16) data) = bytes_of16 (vGUID v)"
    using h(2,3,6) o'(1) b by (simp_all add: u_at_drop add.commute)
  ultimately show "record_value data o' a = Some (stored_var v)"
    by (simp add: record_value_def record_var_def ns ds DecodeUTF16LE_Encode stored_var_def)
qed

lemma walk_encode:
  assumes d: "drop o' data = encodeVariable v a @ r" and o': "o' mod 4 = 0"
    and fit: "o' + length (encodeVariable v a) \<le> e" and e: "e \<le> length data" "e + 64 \<le> 2 ^ 32"
  shows "walk data e a o' = stored_var v # walk data e a (o' + length (encodeVariable v a))"
proof -
  have small: "raw_size v a + 3 < 2 ^ 32"
    using raw_size_le_encode [of v a] fit e by linarith
  have "o' \<le> length data"
    using fit e by linarith
  note r = record_of_encode [OF d this o' small]
  have "hdr_size a \<le> length (encodeVariable v a)"
    using raw_size_le_encode [of v a] by (simp add: raw_size_def)
  then have "record_ok data o' e a"
    using r fit by (simp add: record_ok_def)
  then show ?thesis
    using r by (subst walk.simps) simp
qed

lemma encode_mod4: "raw_size v a + 3 < 2 ^ 32 \<Longrightarrow> length (encodeVariable v a) mod 4 = 0"
  using align4_bounds(3) [of "raw_size v a"] by (simp add: length_encodeVariable)

lemma walk_serialize:
  assumes e: "e \<le> length data" "e + 64 \<le> 2 ^ 32"
  shows "drop o' data = serializeVars vs a @ r \<Longrightarrow> o' mod 4 = 0 \<Longrightarrow> o' + length (serializeVars vs a) \<le> e \<Longrightarrow>
    walk data e a o' = map stored_var vs @ walk data e a (o' + length (serializeVars vs a))"
proof (induction vs arbitrary: o')
  case Nil
  then show ?case by (simp add: serializeVars_def)
next
  case (Cons v vs)
  let ?n = "length (encodeVariable v a)"
  have ser: "serializeVars (v # vs) a = encodeVariable v a @ serializeVars vs a"
    by (simp add: serializeVars_def)
  have fit: "o' + ?n \<le> e"
    using Cons.prems(3) by (simp add: ser)
  have d: "drop o' data = encodeVariable v a @ (serializeVars vs a @ r)"
    using Cons.prems(1) by (simp add: ser)
  have "drop (o' + ?n) data = serializeVars vs a @ r"
    using arg_cong [OF d, of "drop ?n"] by (simp add: add.commute)
  moreover have "raw_size v a + 3 < 2 ^ 32"
    using raw_size_le_encode [of v a] fit e by linarith
  then have "?n mod 4 = 0"
    by (rule encode_mod4)
  then have "(o' + ?n) mod 4 = 0"
    using Cons.prems(2) by (auto simp: mod_eq_0_iff_dvd)
  ultimately have "walk data e a (o' + ?n) =
      map stored_var vs @ walk data e a (o' + ?n + length (serializeVars vs a))"
    using Cons.IH [of "o' + ?n"] Cons.prems(3) by (simp add: ser add.assoc)
  then show ?case
    using walk_encode [OF d Cons.prems(2) fit e] by (simp add: ser add.assoc)
qed

text \<open>Erased flash ends the walk.\<close>

lemma walk_erased:
  assumes "\<And>i. o' \<le> i \<Longrightarrow> i < e \<Longrightarrow> data ! i = 0xFF"
  shows "walk data e a o' = []"
proof -
  have "\<not> record_ok data o' e a"
  proof
    assume ok: "record_ok data o' e a"
    then have "o' + 32 \<le> e"
      using hdr_size_bounds(1) [of a] by (simp add: record_ok_def)
    then have "u16_at data o' = le16 0xFF 0xFF"
      using assms by (simp add: u16_at_def)
    then show False
      using ok by (simp add: record_ok_def le16_def VariableData_def)
  qed
  then show ?thesis
    by (subst walk.simps) simp
qed

subsection \<open>The rebuilt image\<close>

lemma fill_copy_at:
  "h + length payload \<le> e \<Longrightarrow> e \<le> length orig \<Longrightarrow>
   bindR (fill orig h (e - h) v) (\<lambda>b. copy_at b h payload) =
     Ok (take h orig @ payload @ replicate (e - h - length payload) v @ drop e orig)"
proof -
  assume a: "h + length payload \<le> e" "e \<le> length orig"
  then have "fill orig h (e - h) v = Ok (take h orig @ replicate (e - h) v @ drop e orig)"
    by (subst fill_Ok) simp_all
  then show ?thesis
    using a by (simp add: copy_at_Ok)
qed

lemma buildStore_eq:
  "buildStore orig storeOff storeSize payload =
     (let h = unat storeOff + StoreHeaderSize; e = unat storeOff + unat storeSize in
      if length orig < e then Err (Leaf ''uefi: store extends beyond the file'')
      else if e < h + length payload then Err (Leaf ''uefi: variables exceed store size'')
      else Ok (take h orig @ payload @ replicate (e - h - length payload) 0xFF @ drop e orig))"
proof -
  define h where "h = unat storeOff + StoreHeaderSize"
  define e where "e = unat storeOff + unat storeSize"
  have ints: "uint storeOff + int StoreHeaderSize = int h" "uint storeOff + uint storeSize = int e"
    by (simp_all add: h_def e_def)
  show ?thesis
    unfolding buildStore_def ints h_def [symmetric] e_def [symmetric]
    by (simp add: Let_def fill_copy_at flip: of_nat_add)
qed

lemma buildStore_not_Panic: "buildStore orig storeOff storeSize payload \<noteq> Panic"
  by (simp add: buildStore_eq Let_def)

lemma parse_rebuilt:
  assumes spec: "safeio_spec sio"
    and len: "length orig + 64 \<le> 2 ^ 32" and off: "unat storeOff mod 4 = 0"
    and build: "buildStore orig storeOff storeSize (serializeVars vs a) = Ok buf"
  shows "parseVariables sio buf storeOff storeSize a maxVars = limited maxVars [] (map stored_var vs)"
proof -
  let ?h = "unat storeOff + StoreHeaderSize"
  let ?e = "unat storeOff + unat storeSize"
  let ?p = "serializeVars vs a"
  have b: "?e \<le> length orig" "?h + length ?p \<le> ?e"
    and buf: "buf = take ?h orig @ ?p @ replicate (?e - ?h - length ?p) 0xFF @ drop ?e orig"
    using build by (auto simp: buildStore_eq Let_def split: if_splits)
  have lb: "length buf = length orig"
    using b buf by simp
  have h: "length (take ?h orig) = ?h"
    using b by simp
  have d: "drop ?h buf = ?p @ (replicate (?e - ?h - length ?p) 0xFF @ drop ?e orig)"
    using b by (simp add: buf)
  have ff: "buf ! i = 0xFF" if "?h + length ?p \<le> i" "i < ?e" for i
  proof -
    obtain k where k: "i = ?h + length ?p + k"
      using \<open>?h + length ?p \<le> i\<close> le_Suc_ex by blast
    have "buf ! i = (take ?h orig @ ?p @ replicate (?e - ?h - length ?p) 0xFF @ drop ?e orig) ! (?h + (length ?p + k))"
      by (simp add: buf k add.assoc)
    also have "\<dots> = (replicate (?e - ?h - length ?p) 0xFF @ drop ?e orig) ! k"
      using h by (metis nth_append_length_plus)
    also have "\<dots> = 0xFF"
    proof -
      have "k < ?e - ?h - length ?p"
        using that k by linarith
      then show ?thesis
        by (simp add: nth_append)
    qed
    finally show ?thesis .
  qed
  have "walk buf ?e a ?h = map stored_var vs @ walk buf ?e a (?h + length ?p)"
    using b len lb off by (intro walk_serialize [OF _ _ d]) (auto simp: StoreHeaderSize_def)
  moreover have "walk buf ?e a (?h + length ?p) = []"
    using ff by (intro walk_erased) auto
  moreover have "unat storeOff + 92 \<le> 2 ^ 32"
    using b len by (simp add: StoreHeaderSize_def)
  moreover have "min ?e (length buf) = ?e"
    using b lb by simp
  ultimately show ?thesis
    using parseVariables_eq_walk [OF spec, of buf storeOff storeSize a maxVars] len lb by simp
qed

text \<open>Property C5. Round trip of the record codec: when the serialized variables fit into the
  store and the image is rebuilt around them, walking the rebuilt image returns these
  variables, in order, with the names as UTF-16 keeps them.\<close>

theorem serialize_parse_roundtrip:
  assumes "safeio_spec sio" and "length orig + 64 \<le> 2 ^ 32" and "unat storeOff mod 4 = 0"
    and "int (length vs) \<le> maxVars"
    and "buildStore orig storeOff storeSize (serializeVars vs a) = Ok buf"
  shows "parseVariables sio buf storeOff storeSize a maxVars = Ok (map stored_var vs)"
  using parse_rebuilt [OF assms(1,2,3,5)] assms(4) by (simp add: limited_def)

theorem serialize_parse_roundtrip_witness:
  "parseVariables counting_safeio
     (make_bytes 28 @ serializeVars [\<lparr> vName = ''Boot'', vGUID = EFIVariableGUID, vAttributes = 7, vData = [1, 2] \<rparr>] False @
      replicate 24 0xFF) 0 96 False 10 =
   Ok [\<lparr> vName = ''Boot'', vGUID = EFIVariableGUID, vAttributes = 7, vData = [1, 2] \<rparr>]"
proof -
  let ?v = "\<lparr> vName = ''Boot'', vGUID = EFIVariableGUID, vAttributes = 7, vData = [1, 2] \<rparr>"
  have "EncodeUTF16LE ''Boot'' = [0x42, 0, 0x6f, 0, 0x6f, 0, 0x74, 0, 0, 0]"
    by (simp add: EncodeUTF16LE_def runes_of_ascii utf16_Encode_def utf16_units_def scalar_def le16_bytes_def)
  then have len: "length (serializeVars [?v] False) = 44"
    by (simp add: serializeVars_def length_encodeVariable raw_size_def hdr_size_def nv_consts align4_def)
  have "buildStore (make_bytes 96) 0 96 (serializeVars [?v] False) =
      Ok (make_bytes 28 @ serializeVars [?v] False @ replicate 24 0xFF)"
    using len by (simp add: buildStore_eq StoreHeaderSize_def)
  from serialize_parse_roundtrip [OF counting_safeio_spec _ _ _ this, of 10] show ?thesis
    by (simp add: stored_var_valid valid_utf8_ascii)
qed

text \<open>Property C4. The record walk is exact on any input: on arbitrary bytes the loop with its
  32-bit offsets, its guards and its loop guard returns precisely the live records that the
  specification \<open>walk\<close> finds with unbounded arithmetic inside the store, in order, or
  the count error when they are more than the limit; it neither panics nor wraps.\<close>

theorem parseVariables_refines_walk:
  assumes "safeio_spec sio" and "length data + 64 \<le> 2 ^ 32" and "unat storeOff + 92 \<le> 2 ^ 32"
  shows "parseVariables sio data storeOff storeSize a maxVars =
    limited maxVars []
      (walk data (min (unat storeOff + unat storeSize) (length data)) a (unat storeOff + StoreHeaderSize))"
  by (rule parseVariables_eq_walk [OF assms])

theorem parseVariables_refines_walk_witness:
  "parseVariables counting_safeio (replicate 96 0xFF) 0 96 True 10 = Ok []"
proof -
  have "walk (replicate 96 0xFF) 96 True 28 = []"
    by (rule walk_erased) simp
  with parseVariables_refines_walk [OF counting_safeio_spec, of "replicate 96 0xFF" 0 96 True 10] show ?thesis
    by (simp add: limited_def StoreHeaderSize_def)
qed

text \<open>Property C31. A record is one block: header, name, data without padding between them, then
  zero bytes up to the next multiple of four, so that records stay aligned; its length is the
  rounded size for every variable below 4 GiB.\<close>

theorem encodeVariable_layout:
  assumes "raw_size v a + 3 < 2 ^ 32"
  shows "encodeVariable v a =
      record_header v (of_nat (length (EncodeUTF16LE (vName v)))) (of_nat (length (vData v))) a @
      EncodeUTF16LE (vName v) @ vData v @ make_bytes (align4 (raw_size v a) - raw_size v a) \<and>
    length (encodeVariable v a) = align4 (raw_size v a) \<and> length (encodeVariable v a) mod 4 = 0"
  using encodeVariable_eq [OF assms] length_encodeVariable [OF assms] encode_mod4 [OF assms] by blast

theorem encodeVariable_layout_witness:
  "length (encodeVariable \<lparr> vName = [], vGUID = EFIVariableGUID, vAttributes = 7, vData = [1] \<rparr> False) = 36"
  using encodeVariable_layout [of "\<lparr> vName = [], vGUID = EFIVariableGUID, vAttributes = 7, vData = [1] \<rparr>" False]
  by (simp add: raw_size_def hdr_size_def nv_consts align4_def EncodeUTF16LE_def runes_of_ascii utf16_Encode_def le16_bytes_def)

end
