(* ===== verification/Store_Interface.thy ===== *)
theory Store_Interface
  imports Nv_Codec
begin

text \<open>
  The Go interface \<open>VariableStore\<close> (uefi.go), through which the boot manager, the Secure Boot
  enrolment and the authenticated writes reach a store. A Go interface value is a table of
  methods over a hidden state: the record \<open>VariableStore\<close> over a state type. The locale
  \<open>variable_store\<close> states what the interface promises, in terms of the partial map from
  keys (name and GUID) to variables that \<open>Get\<close> shows. A write that reports an error promises
  nothing about the state.
\<close>

text \<open>The namespaces of the package's clients (secureboot.go, filesystem.go).\<close>

definition EFIGlobalVariableGUID :: GUID where
  "EFIGlobalVariableGUID = B16 0x61 0xdf 0xe4 0x8b 0xca 0x93 0xd2 0x11
     0xaa 0x0d 0x00 0xe0 0x98 0x03 0x2b 0x8c"

definition EFIImageSecurityDatabaseGUID :: GUID where
  "EFIImageSecurityDatabaseGUID = B16 0xcb 0xb2 0x19 0xd7 0x3a 0x3d 0x96 0x45
     0xa3 0xbc 0xda 0xd0 0x0e 0x67 0x65 0x6f"

definition DefaultNamespaceGUID :: GUID where
  "DefaultNamespaceGUID = B16 0x61 0xdf 0xe4 0x8b 0xca 0x93 0xd2 0x11
     0xaa 0x0d 0x00 0xe0 0x98 0x03 0x2b 0x8c"

record 's VariableStore =
  vsClose :: "'s \<Rightarrow> unit res"
  vsList :: "'s \<Rightarrow> Variable list"
  vsGet :: "'s \<Rightarrow> string \<Rightarrow> GUID \<Rightarrow> Variable res"
  vsSet :: "'s \<Rightarrow> Variable \<Rightarrow> 's \<times> unit res"
  vsDelete :: "'s \<Rightarrow> string \<Rightarrow> GUID \<Rightarrow> 's \<times> unit res"

definition vs_lookup :: "'s VariableStore \<Rightarrow> 's \<Rightarrow> string \<Rightarrow> GUID \<Rightarrow> Variable option" where
  "vs_lookup vs st n g = (case vsGet vs st n g of Ok v \<Rightarrow> Some v | _ \<Rightarrow> None)"

locale variable_store =
  fixes vs :: "'s VariableStore"
  assumes get_not_panic: "vsGet vs st n g \<noteq> Panic"
    and get_missing: "vsGet vs st n g = Err e \<Longrightarrow> errors_Is e ErrNotExist"
    and get_key: "vsGet vs st n g = Ok v \<Longrightarrow> vName v = n \<and> vGUID v = g"
    and get_listed: "vsGet vs st n g = Ok v \<Longrightarrow> v \<in> set (vsList vs st)"
    and listed_get: "v \<in> set (vsList vs st) \<Longrightarrow> \<exists>v'. vsGet vs st (vName v) (vGUID v) = Ok v'"
    and set_lookup: "vsSet vs st v = (st', Ok ()) \<Longrightarrow>
      vs_lookup vs st' n g = (if n = vName v \<and> g = vGUID v then Some v else vs_lookup vs st n g)"
    and delete_lookup: "vsDelete vs st n g = (st', Ok ()) \<Longrightarrow>
      vs_lookup vs st' n' g' = (if n' = n \<and> g' = g then None else vs_lookup vs st n' g')"
    and delete_missing: "vs_lookup vs st n g = None \<Longrightarrow>
      \<exists>e. vsDelete vs st n g = (st, Err e) \<and> errors_Is e ErrNotExist"
begin

lemma lookup_Some_iff: "vs_lookup vs st n g = Some v \<longleftrightarrow> vsGet vs st n g = Ok v"
  by (auto simp: vs_lookup_def split: res.splits)

lemma lookup_None_iff: "vs_lookup vs st n g = None \<longleftrightarrow> (\<exists>e. vsGet vs st n g = Err e)"
  using get_not_panic [of st n g] by (auto simp: vs_lookup_def split: res.splits)

lemma lookup_dom: "vs_lookup vs st n g \<noteq> None \<longleftrightarrow> (\<exists>v \<in> set (vsList vs st). vName v = n \<and> vGUID v = g)"
  using get_listed get_key listed_get by (fastforce simp: lookup_Some_iff)

lemma set_get_same: "vsSet vs st v = (st', Ok ()) \<Longrightarrow> vsGet vs st' (vName v) (vGUID v) = Ok v"
  using set_lookup [of st v st' "vName v" "vGUID v"] by (simp add: lookup_Some_iff)

lemma set_get_other:
  "vsSet vs st v = (st', Ok ()) \<Longrightarrow> n \<noteq> vName v \<or> g \<noteq> vGUID v \<Longrightarrow> vs_lookup vs st' n g = vs_lookup vs st n g"
  by (auto simp: set_lookup)

lemma delete_get_same: "vsDelete vs st n g = (st', Ok ()) \<Longrightarrow> \<exists>e. vsGet vs st' n g = Err e \<and> errors_Is e ErrNotExist"
  using delete_lookup [of st n g st' n g] get_missing by (auto simp: lookup_None_iff)

end

text \<open>A store whose writes, failed ones included, leave every other key alone.\<close>

locale framed_store = variable_store +
  assumes set_frame: "vsSet vs st v = (st', r) \<Longrightarrow> n \<noteq> vName v \<or> g \<noteq> vGUID v \<Longrightarrow>
      vs_lookup vs st' n g = vs_lookup vs st n g"

end
