(* ===== verification/Device_Path.thy ===== *)
theory Device_Path
  imports Store_Interface
begin

text \<open>
  EFI device paths (devicepath.go): the node list codec, the typed views of file-path and
  hard-drive nodes, and the text form. \<open>ParseDevicePath\<close> walks untrusted bytes through the
  checks of safeio; its specification \<open>path_spec\<close> reads one node after the other off a byte
  list. Slice accesses are checked, so the absence of \<open>Panic\<close> is a theorem.
\<close>

definition DevPathTypeHardware :: byte where "DevPathTypeHardware = 0x01"
definition DevPathTypeACPI :: byte where "DevPathTypeACPI = 0x02"
definition DevPathTypeMessaging :: byte where "DevPathTypeMessaging = 0x03"
definition DevPathTypeMedia :: byte where "DevPathTypeMedia = 0x04"
definition DevPathTypeBIOS :: byte where "DevPathTypeBIOS = 0x05"
definition DevPathTypeEnd :: byte where "DevPathTypeEnd = 0x7F"
definition DevPathEndInstance :: byte where "DevPathEndInstance = 0x01"
definition DevPathEndEntire :: byte where "DevPathEndEntire = 0xFF"

definition devPathHWSubPCI :: byte where "devPathHWSubPCI = 0x01"
definition devPathACPISubACPI :: byte where "devPathACPISubACPI = 0x01"
definition devPathMsgSubMAC :: byte where "devPathMsgSubMAC = 0x0B"
definition devPathMsgSubIPv4 :: byte where "devPathMsgSubIPv4 = 0x0C"
definition devPathMsgSubIPv6 :: byte where "devPathMsgSubIPv6 = 0x0D"
definition devPathMsgSubUSB :: byte where "devPathMsgSubUSB = 0x05"
definition devPathMsgSubSATA :: byte where "devPathMsgSubSATA = 0x12"
definition devPathMediaSubHD :: byte where "devPathMediaSubHD = 0x01"
definition devPathMediaSubCDROM :: byte where "devPathMediaSubCDROM = 0x02"
definition devPathMediaSubVendor :: byte where "devPathMediaSubVendor = 0x03"
definition devPathMediaSubFile :: byte where "devPathMediaSubFile = 0x04"
definition devPathMediaSubFvFile :: byte where "devPathMediaSubFvFile = 0x06"
definition devPathMediaSubFv :: byte where "devPathMediaSubFv = 0x07"

definition HDMBRTypePCAT :: byte where "HDMBRTypePCAT = 0x01"
definition HDMBRTypeGPT :: byte where "HDMBRTypeGPT = 0x02"
definition HDSigTypeNone :: byte where "HDSigTypeNone = 0x00"
definition HDSigTypeMBR :: byte where "HDSigTypeMBR = 0x01"
definition HDSigTypeGUID :: byte where "HDSigTypeGUID = 0x02"

definition devPathHeaderSize :: nat where "devPathHeaderSize = 4"
definition maxDevicePathBytes :: nat where "maxDevicePathBytes = 64 * 1024"

lemmas dev_consts = DevPathTypeHardware_def DevPathTypeACPI_def DevPathTypeMessaging_def DevPathTypeMedia_def
  DevPathTypeEnd_def DevPathEndEntire_def devPathHWSubPCI_def devPathACPISubACPI_def devPathMsgSubMAC_def
  devPathMsgSubIPv4_def devPathMsgSubIPv6_def devPathMediaSubHD_def devPathMediaSubCDROM_def
  devPathMediaSubVendor_def devPathMediaSubFile_def devPathMediaSubFvFile_def devPathMediaSubFv_def
  HDMBRTypeGPT_def HDSigTypeMBR_def HDSigTypeGUID_def

record DevicePathNode =
  dpType :: byte
  dpSubType :: byte
  dpData :: bytes

definition node_Length :: "DevicePathNode \<Rightarrow> nat" where
  "node_Length n = devPathHeaderSize + length (dpData n)"

definition isEnd :: "DevicePathNode \<Rightarrow> bool" where
  "isEnd n \<longleftrightarrow> dpType n = DevPathTypeEnd \<and> dpSubType n = DevPathEndEntire"

subsection \<open>The node list\<close>

text \<open>The loop of \<open>ParseDevicePath\<close>, from offset \<open>off\<close> with the nodes read so far.\<close>

function dp_loop :: "'g safeio \<Rightarrow> bytes \<Rightarrow> 'g \<Rightarrow> nat \<Rightarrow> DevicePathNode list \<Rightarrow> DevicePathNode list res" where
  "dp_loop sio b g off nodes =
     (case GuardNext sio g of
        Inl e \<Rightarrow> Err (Wrap ''uefi: device path: %w'' e)
      | Inr g' \<Rightarrow>
          check (CheckBounds sio (int off) (int devPathHeaderSize) (int (length b)))
            ''uefi: device path: header truncated at %d: %w'' (
          bindR (index b off) (\<lambda>typ.
          bindR (index b (off + 1)) (\<lambda>sub.
          bindR (bindR (slice b (off + 2) (off + 4)) Uint16) (\<lambda>len16.
          let nodeLen = unat len16 in
          if nodeLen < devPathHeaderSize
          then Err (Leaf ''uefi: device path: node length %d at %d below header size'')
          else
            check (CheckBounds sio (int off) (int nodeLen) (int (length b)))
              ''uefi: device path: node at %d extends beyond buffer: %w'' (
            bindR (slice b (off + devPathHeaderSize) (off + nodeLen)) (\<lambda>src.
            let dataLen = nodeLen - devPathHeaderSize;
                node = \<lparr> dpType = typ, dpSubType = sub, dpData = copy_bytes (make_bytes dataLen) src \<rparr> in
            if isEnd node then Ok nodes
            else dp_loop sio b g' (off + nodeLen) (nodes @ [node]))))))))"
  by pat_completeness auto
termination
  by (relation "measure (\<lambda>(sio, b, g, off, nodes). length b - off)")
    (auto simp: index_def devPathHeaderSize_def split: if_splits)

declare dp_loop.simps [simp del]

definition ParseDevicePath :: "'g safeio \<Rightarrow> bytes \<Rightarrow> DevicePathNode list res" where
  "ParseDevicePath sio b =
     (if length b > maxDevicePathBytes then Err (Leaf ''uefi: device path: %d bytes exceeds ceiling %d'')
      else dp_loop sio b (NewLoopGuard sio (int (length b) + 1)) 0 [])"

text \<open>The loop of \<open>MarshalDevicePath\<close> with its buffer.\<close>

fun marshal_nodes :: "DevicePathNode list \<Rightarrow> bytes \<Rightarrow> bytes res" where
  "marshal_nodes [] buf = Ok buf"
| "marshal_nodes (n # ns) buf =
     (if isEnd n then Err (Leaf ''uefi: device path: node %d is an End node; the terminator is implicit'')
      else if node_Length n > 0xFFFF then Err (Leaf ''uefi: device path: node %d length %d overflows uint16'')
      else marshal_nodes ns
        (buf @ ([dpType n, dpSubType n] @ le16_bytes (of_nat (node_Length n))) @ dpData n))"

definition MarshalDevicePath :: "DevicePathNode list \<Rightarrow> bytes res" where
  "MarshalDevicePath nodes =
     bindR (marshal_nodes nodes []) (\<lambda>buf.
     Ok (buf @ [DevPathTypeEnd, DevPathEndEntire, of_nat devPathHeaderSize, 0x00]))"

subsection \<open>Typed nodes\<close>

definition FilePathNode :: "string \<Rightarrow> DevicePathNode" where
  "FilePathNode p = \<lparr> dpType = DevPathTypeMedia, dpSubType = devPathMediaSubFile, dpData = EncodeUTF16LE p \<rparr>"

definition FilePath :: "DevicePathNode \<Rightarrow> string option" where
  "FilePath n =
     (if dpType n \<noteq> DevPathTypeMedia \<or> dpSubType n \<noteq> devPathMediaSubFile then None
      else case DecodeUTF16LE (dpData n) of Ok s \<Rightarrow> Some s | _ \<Rightarrow> None)"

record HardDriveNode =
  PartitionNumber :: u32
  PartitionStart :: u64
  PartitionSize :: u64
  Signature :: byte16
  MBRType :: byte
  SignatureType :: byte

definition Node :: "HardDriveNode \<Rightarrow> DevicePathNode" where
  "Node drv =
     \<lparr> dpType = DevPathTypeMedia, dpSubType = devPathMediaSubHD,
       dpData = le32_bytes (PartitionNumber drv) @ le64_bytes (PartitionStart drv) @ le64_bytes (PartitionSize drv) @
         bytes_of16 (Signature drv) @ [MBRType drv, SignatureType drv] \<rparr>"

definition HardDrive :: "DevicePathNode \<Rightarrow> HardDriveNode option res" where
  "HardDrive n =
     (if dpType n \<noteq> DevPathTypeMedia \<or> dpSubType n \<noteq> devPathMediaSubHD then Ok None
      else if length (dpData n) < 38 then Ok None
      else
        bindR (bindR (slice_from (dpData n) 0) Uint32) (\<lambda>pn.
        bindR (bindR (slice_from (dpData n) 4) Uint64) (\<lambda>pst.
        bindR (bindR (slice_from (dpData n) 12) Uint64) (\<lambda>psz.
        bindR (slice (dpData n) 20 36) (\<lambda>sig.
        bindR (index (dpData n) 36) (\<lambda>mbr.
        bindR (index (dpData n) 37) (\<lambda>sigt.
        Ok (Some \<lparr> PartitionNumber = pn, PartitionStart = pst, PartitionSize = psz, Signature = copy16 sig,
                   MBRType = mbr, SignatureType = sigt \<rparr>))))))))"

subsection \<open>Text\<close>

definition hexBytes :: "bytes \<Rightarrow> string" where
  "hexBytes b = concat (map (\<lambda>c. [lower_digit (unat (drop_bit 4 c)), lower_digit (unat (c AND 0x0f))]) b)"

definition guidText :: "byte16 \<Rightarrow> string" where
  "guidText g =
     (let b = bytes_of16 g; x2 = (\<lambda>i. fmt_0x 2 (unat (b ! i))) in
      fmt_0x 8 (unat (le32 (b ! 0) (b ! 1) (b ! 2) (b ! 3))) @ ''-'' @ fmt_0x 4 (unat (le16 (b ! 4) (b ! 5))) @ ''-'' @
      fmt_0x 4 (unat (le16 (b ! 6) (b ! 7))) @ ''-'' @ x2 8 @ x2 9 @ ''-'' @
      x2 10 @ x2 11 @ x2 12 @ x2 13 @ x2 14 @ x2 15)"

definition hd_text :: "HardDriveNode \<Rightarrow> string" where
  "hd_text drv =
     (let mbr = (if MBRType drv = HDMBRTypeGPT then ''GPT'' else ''MBR'');
          s = bytes_of16 (Signature drv);
          sig = (if SignatureType drv = HDSigTypeGUID then guidText (Signature drv)
                 else if SignatureType drv = HDSigTypeMBR
                 then ''0x'' @ fmt_0x 8 (unat (le32 (s ! 0) (s ! 1) (s ! 2) (s ! 3)))
                 else ''0'')
      in ''HD('' @ fmt_d (unat (PartitionNumber drv)) @ '','' @ mbr @ '','' @ sig @ '',0x'' @
         fmt_x (unat (PartitionStart drv)) @ '',0x'' @ fmt_x (unat (PartitionSize drv)) @ '')'')"

definition path_text :: "DevicePathNode \<Rightarrow> string" where
  "path_text n = ''Path(0x'' @ fmt_x (unat (dpType n)) @ '',0x'' @ fmt_x (unat (dpSubType n)) @ '','' @
     hexBytes (dpData n) @ '')''"

definition node_text :: "DevicePathNode \<Rightarrow> string res" where
  "node_text n =
     (if dpType n = DevPathTypeHardware then
        if dpSubType n = devPathHWSubPCI \<and> length (dpData n) \<ge> 2 then
          bindR (index (dpData n) 1) (\<lambda>d1. bindR (index (dpData n) 0) (\<lambda>d0.
          Ok (''Pci(0x'' @ fmt_x (unat d1) @ '',0x'' @ fmt_x (unat d0) @ '')'')))
        else Ok (path_text n)
      else if dpType n = DevPathTypeACPI then
        if dpSubType n = devPathACPISubACPI \<and> length (dpData n) \<ge> 8 then
          bindR (bindR (slice (dpData n) 0 4) Uint32) (\<lambda>hid.
          bindR (bindR (slice (dpData n) 4 8) Uint32) (\<lambda>uid.
          if hid = 0x0A0341D0 then Ok (''PciRoot(0x'' @ fmt_x (unat uid) @ '')'')
          else Ok (''Acpi(0x'' @ fmt_x (unat hid) @ '',0x'' @ fmt_x (unat uid) @ '')'')))
        else Ok (path_text n)
      else if dpType n = DevPathTypeMessaging then
        if dpSubType n = devPathMsgSubMAC then Ok (''MAC('' @ hexBytes (dpData n) @ '')'')
        else if dpSubType n = devPathMsgSubIPv4 then Ok (''IPv4('' @ hexBytes (dpData n) @ '')'')
        else if dpSubType n = devPathMsgSubIPv6 then Ok (''IPv6('' @ hexBytes (dpData n) @ '')'')
        else Ok (''Msg(0x'' @ fmt_x (unat (dpSubType n)) @ '','' @ hexBytes (dpData n) @ '')'')
      else if dpType n = DevPathTypeMedia then
        if dpSubType n = devPathMediaSubHD then
          bindR (HardDrive n) (\<lambda>h. case h of Some drv \<Rightarrow> Ok (hd_text drv) | None \<Rightarrow> Ok (path_text n))
        else if dpSubType n = devPathMediaSubFile then
          (case FilePath n of Some p \<Rightarrow> Ok (''File('' @ p @ '')'') | None \<Rightarrow> Ok (path_text n))
        else if dpSubType n = devPathMediaSubCDROM then Ok (''CDROM('' @ hexBytes (dpData n) @ '')'')
        else if dpSubType n = devPathMediaSubVendor \<or> dpSubType n = devPathMediaSubFvFile \<or>
                dpSubType n = devPathMediaSubFv then
          if length (dpData n) \<ge> 16 then
            bindR (slice (dpData n) 0 16) (\<lambda>g. Ok (''MediaVendor('' @ guidText (copy16 g) @ '')''))
          else Ok (path_text n)
        else Ok (path_text n)
      else Ok (path_text n))"

fun join :: "string \<Rightarrow> string list \<Rightarrow> string" where
  "join sep [] = []"
| "join sep [p] = p"
| "join sep (p # q # ps) = p @ sep @ join sep (q # ps)"

fun texts :: "DevicePathNode list \<Rightarrow> string list res" where
  "texts [] = Ok []"
| "texts (n # ns) = bindR (node_text n) (\<lambda>t. bindR (texts ns) (\<lambda>ts. Ok (t # ts)))"

definition DevicePathText :: "DevicePathNode list \<Rightarrow> string res" where
  "DevicePathText nodes = bindR (texts nodes) (\<lambda>parts. Ok (join ''/'' parts))"

subsection \<open>The specification of parsing\<close>

function path_spec :: "bytes \<Rightarrow> DevicePathNode list option" where
  "path_spec d =
     (if length d < 4 then None
      else
        let l = unat (u16_at d 2);
            n = \<lparr> dpType = d ! 0, dpSubType = d ! 1, dpData = take (l - 4) (drop 4 d) \<rparr> in
        if l < 4 \<or> length d < l then None
        else if isEnd n then Some []
        else map_option ((#) n) (path_spec (drop l d)))"
  by pat_completeness auto
termination
  by (relation "measure length") (auto simp: Let_def)

declare path_spec.simps [simp del]

text \<open>One node on the wire.\<close>

definition node_bytes :: "DevicePathNode \<Rightarrow> bytes" where
  "node_bytes n = [dpType n, dpSubType n] @ le16_bytes (of_nat (node_Length n)) @ dpData n"

lemma length_node_bytes: "length (node_bytes n) = node_Length n"
  by (simp add: node_bytes_def node_Length_def devPathHeaderSize_def)

lemma node_eta: "\<lparr> dpType = dpType n, dpSubType = dpSubType n, dpData = dpData n \<rparr> = n"
  by (cases n) simp

lemma path_spec_node:
  assumes "node_Length n \<le> 0xFFFF"
  shows "path_spec (node_bytes n @ r) = (if isEnd n then Some [] else map_option ((#) n) (path_spec r))"
proof -
  have "unat (of_nat (node_Length n) :: u16) = node_Length n"
    using assms by (intro unat_of_nat_u16) simp
  then have l: "unat (u16_at (node_bytes n @ r) 2) = node_Length n"
    using u16_at_append [of "[dpType n, dpSubType n]" "of_nat (node_Length n)" "dpData n @ r"]
    by (simp add: node_bytes_def numeral_2_eq_2)
  have len: "node_Length n = 4 + length (dpData n)"
    by (simp add: node_Length_def devPathHeaderSize_def)
  have drop: "drop (node_Length n) (node_bytes n @ r) = r"
    by (simp add: length_node_bytes)
  have "take (node_Length n - 4) (drop 4 (node_bytes n @ r)) = dpData n"
    "(node_bytes n @ r) ! 0 = dpType n" "(node_bytes n @ r) ! 1 = dpSubType n"
    by (simp_all add: len node_bytes_def)
  moreover have "\<not> length (node_bytes n @ r) < 4" "\<not> length (node_bytes n @ r) < node_Length n" "\<not> node_Length n < 4"
    by (simp_all add: length_node_bytes len)
  ultimately show ?thesis
    by (subst path_spec.simps) (simp only: l drop Let_def if_False simp_thms node_eta)
qed

lemma range_iff: "off \<le> n \<Longrightarrow> 0 \<le> int off \<and> 0 \<le> int l \<and> int off + int l \<le> int n \<longleftrightarrow> l \<le> n - off"
  by auto

text \<open>One turn of the loop, with a header inside the blob; and with the whole node inside it.\<close>

lemma dp_loop_header:
  assumes sb: "safeio_bounds sio" and g': "GuardNext sio g = Inr g'" and h: "off + 4 \<le> length b"
  shows "dp_loop sio b g off acc =
    (let d = drop off b; l = unat (u16_at d 2) in
     if l < devPathHeaderSize then Err (Leaf ''uefi: device path: node length %d at %d below header size'')
     else check (CheckBounds sio (int off) (int l) (int (length b)))
       ''uefi: device path: node at %d extends beyond buffer: %w'' (
       bindR (slice b (off + devPathHeaderSize) (off + l)) (\<lambda>src.
       let node = \<lparr> dpType = d ! 0, dpSubType = d ! 1, dpData = copy_bytes (make_bytes (l - devPathHeaderSize)) src \<rparr> in
       if isEnd node then Ok acc else dp_loop sio b g' (off + l) (acc @ [node]))))"
proof -
  have c1: "CheckBounds sio (int off) (int devPathHeaderSize) (int (length b)) = None"
    using h by (simp add: CheckBounds_None [OF sb] devPathHeaderSize_def)
  have rd: "index b off = Ok (drop off b ! 0)" "index b (off + 1) = Ok (drop off b ! 1)"
    "bindR (slice b (off + 2) (off + 4)) Uint16 = Ok (u16_at (drop off b) 2)"
    using h by (simp_all add: index_def slice_Ok Uint16_def u16_at_def numeral_3_eq_3)
  show ?thesis
    by (subst dp_loop.simps) (simp only: g' c1 rd check_None bindR.simps sum.case Let_def)
qed

lemma dp_loop_node:
  assumes sb: "safeio_bounds sio" and g': "GuardNext sio g = Inr g'"
    and l: "l = unat (u16_at (drop off b) 2)" "4 \<le> l" "off + l \<le> length b"
    and n: "n = \<lparr> dpType = drop off b ! 0, dpSubType = drop off b ! 1, dpData = take (l - 4) (drop 4 (drop off b)) \<rparr>"
  shows "dp_loop sio b g off acc = (if isEnd n then Ok acc else dp_loop sio b g' (off + l) (acc @ [n]))"
proof -
  have h: "off + 4 \<le> length b"
    using l by simp
  have c: "CheckBounds sio (int off) (int l) (int (length b)) = None"
    unfolding CheckBounds_None [OF sb] using l(3) by linarith
  have src: "slice b (off + devPathHeaderSize) (off + l) = Ok (take (l - 4) (drop 4 (drop off b)))"
    using l by (simp add: slice_Ok devPathHeaderSize_def add.commute)
  have cp: "copy_bytes (make_bytes (l - devPathHeaderSize)) (take (l - 4) (drop 4 (drop off b))) = take (l - 4) (drop 4 (drop off b))"
    using l(2,3) by (intro copy_bytes_same) (simp add: devPathHeaderSize_def)
  show ?thesis
    using l(2) unfolding dp_loop_header [OF sb g' h] l(1) [symmetric] Let_def c src check_None bindR.simps cp n
    by (simp add: devPathHeaderSize_def)
qed

lemma dp_loop_spec:
  assumes sb: "safeio_bounds sio"
  shows "off \<le> length b \<Longrightarrow> guard_allows sio g (Suc (length b - off)) \<Longrightarrow>
    (case path_spec (drop off b) of
       Some ns \<Rightarrow> dp_loop sio b g off acc = Ok (acc @ ns)
     | None \<Rightarrow> \<exists>e. dp_loop sio b g off acc = Err e)"
proof (induction "length b - off" arbitrary: off g acc rule: less_induct)
  case less
  obtain g' where g': "GuardNext sio g = Inr g'" "guard_allows sio g' (length b - off)"
    using guard_allows_SucD [OF less.prems(2)] by blast
  let ?d = "drop off b"
  let ?l = "unat (u16_at ?d 2)"
  let ?n = "\<lparr> dpType = ?d ! 0, dpSubType = ?d ! 1, dpData = take (?l - 4) (drop 4 ?d) \<rparr>"
  consider "length ?d < 4" | "4 \<le> length ?d" "?l < 4 \<or> length ?d < ?l" | "4 \<le> ?l" "?l \<le> length ?d"
    by linarith
  then show ?case
  proof cases
    case 1
    then have "CheckBounds sio (int off) 4 (int (length b)) \<noteq> None"
      using CheckBounds_None [OF sb, of "int off" 4] less.prems(1) by simp
    with 1 show ?thesis
      by (subst path_spec.simps, subst dp_loop.simps) (auto simp: g' devPathHeaderSize_def)
  next
    case 2
    then have h: "off + 4 \<le> length b"
      using less.prems(1) by simp
    have "CheckBounds sio (int off) (int ?l) (int (length b)) = None \<longleftrightarrow> ?l \<le> length ?d"
      by (simp only: CheckBounds_None [OF sb] length_drop range_iff [OF less.prems(1)])
    with 2 show ?thesis
      by (subst path_spec.simps) (auto simp: dp_loop_header [OF sb g'(1) h] Let_def devPathHeaderSize_def)
  next
    case 3
    then have len: "off + ?l \<le> length b" "length b - (off + ?l) < length b - off"
      using less.prems(1) by auto
    have spec: "path_spec ?d = (if isEnd ?n then Some [] else map_option ((#) ?n) (path_spec (drop (off + ?l) b)))"
      using 3 by (subst path_spec.simps) (simp add: Let_def add.commute)
    have "guard_allows sio g' (Suc (length b - (off + ?l)))"
      using len by (intro guard_allows_mono [OF g'(2)]) simp
    from less.hyps [OF len(2,1) this, of "acc @ [?n]"] show ?thesis
      unfolding dp_loop_node [OF sb g'(1) refl 3(1) len(1) refl] spec by (cases "path_spec (drop (off + ?l) b)") auto
  qed
qed

text \<open>What the specification accepts: node after node, up to the first End node.\<close>

definition wire_nodes :: "DevicePathNode list \<Rightarrow> bytes" where
  "wire_nodes ns = concat (map node_bytes ns)"

definition plain_nodes :: "DevicePathNode list \<Rightarrow> bool" where
  "plain_nodes ns \<longleftrightarrow> (\<forall>n \<in> set ns. \<not> isEnd n \<and> node_Length n \<le> 0xFFFF)"

lemma path_spec_wire:
  assumes "plain_nodes ns" "isEnd e" "node_Length e \<le> 0xFFFF"
  shows "path_spec (wire_nodes ns @ node_bytes e @ r) = Some ns"
  using assms(1)
proof (induction ns)
  case Nil
  then show ?case using assms(2,3) by (simp add: wire_nodes_def path_spec_node)
next
  case (Cons n ns)
  then have "path_spec (wire_nodes (n # ns) @ node_bytes e @ r) =
      map_option ((#) n) (path_spec (wire_nodes ns @ node_bytes e @ r))"
    using path_spec_node [of n "wire_nodes ns @ node_bytes e @ r"] by (simp add: wire_nodes_def plain_nodes_def)
  with Cons show ?case by (simp add: plain_nodes_def)
qed

lemma unat_u16_less: "unat (w :: u16) < 2 ^ 16"
  using unsigned_less [of w] by simp

text \<open>A buffer whose length field is honest starts with the bytes of the node it describes.\<close>

lemma first_node:
  assumes d: "4 \<le> length d" and l: "l = unat (u16_at d 2)" "4 \<le> l" "l \<le> length d"
    and n: "n = \<lparr> dpType = d ! 0, dpSubType = d ! 1, dpData = take (l - 4) (drop 4 d) \<rparr>"
  shows "d = node_bytes n @ drop l d" "node_Length n = l" "l \<le> 0xFFFF"
proof -
  show len: "node_Length n = l"
    using l by (simp add: n node_Length_def devPathHeaderSize_def)
  show "l \<le> 0xFFFF"
    using unat_u16_less [of "u16_at d 2"] l(1) by simp
  have "of_nat l = u16_at d 2"
    by (simp add: l(1))
  then have "node_bytes n = [d ! 0, d ! 1] @ [d ! 2, d ! 3] @ take (l - 4) (drop 4 d)"
    unfolding node_bytes_def len by (simp add: n u16_at_def le16_bytes_le16)
  also have "\<dots> = take 4 d @ take (l - 4) (drop 4 d)"
  proof -
    have "take 4 d = [d ! 0, d ! 1, d ! 2, d ! 3]"
      using d by (intro nth_equalityI) (auto simp: less_Suc_eq numeral_eq_Suc)
    then show ?thesis by simp
  qed
  also have "\<dots> = take l d"
    using l by (metis add_diff_inverse_nat not_less take_add)
  finally show "d = node_bytes n @ drop l d"
    by simp
qed

lemma path_spec_Some:
  "path_spec d = Some ns \<Longrightarrow>
     plain_nodes ns \<and> (\<exists>e r. isEnd e \<and> node_Length e \<le> 0xFFFF \<and> d = wire_nodes ns @ node_bytes e @ r)"
proof (induction d arbitrary: ns rule: path_spec.induct)
  case (1 d)
  define l where "l = unat (u16_at d 2)"
  define n where "n = \<lparr> dpType = d ! 0, dpSubType = d ! 1, dpData = take (l - 4) (drop 4 d) \<rparr>"
  have sp: "path_spec d = (if length d < 4 then None else if l < 4 \<or> length d < l then None
      else if isEnd n then Some [] else map_option ((#) n) (path_spec (drop l d)))"
    by (subst path_spec.simps) (simp add: Let_def l_def n_def)
  have b: "4 \<le> length d" "4 \<le> l" "l \<le> length d"
    using "1.prems" sp by (auto split: if_splits)
  note f = first_node [OF b(1) l_def b(2,3) n_def]
  show ?case
  proof (cases "isEnd n")
    case True
    then have "ns = []"
      using "1.prems" sp b by simp
    moreover have "d = wire_nodes [] @ node_bytes n @ drop l d"
      using f(1) by (simp add: wire_nodes_def)
    ultimately show ?thesis
      using True f by (auto simp: plain_nodes_def)
  next
    case False
    then obtain ns' where ns: "ns = n # ns'" "path_spec (drop l d) = Some ns'"
      using "1.prems" sp b by auto
    have "\<not> length d < 4" "\<not> (l < 4 \<or> length d < l)"
      using b by simp_all
    from "1.IH" [OF this(1) l_def n_def this(2) False ns(2)] obtain e r
      where e: "plain_nodes ns'" "isEnd e" "node_Length e \<le> 0xFFFF" "drop l d = wire_nodes ns' @ node_bytes e @ r"
      by blast
    have "d = wire_nodes ns @ node_bytes e @ r"
      using f(1) e(4) ns by (simp add: wire_nodes_def)
    then show ?thesis
      using e False f ns by (auto simp: plain_nodes_def)
  qed
qed

lemma path_spec_iff:
  "path_spec d = Some ns \<longleftrightarrow>
     plain_nodes ns \<and> (\<exists>e r. isEnd e \<and> node_Length e \<le> 0xFFFF \<and> d = wire_nodes ns @ node_bytes e @ r)"
  using path_spec_Some path_spec_wire by blast

lemma ParseDevicePath_spec:
  assumes "safeio_spec sio" "length b \<le> maxDevicePathBytes"
  shows "case path_spec b of Some ns \<Rightarrow> ParseDevicePath sio b = Ok ns | None \<Rightarrow> \<exists>e. ParseDevicePath sio b = Err e"
proof -
  have "guard_allows sio (NewLoopGuard sio (int (length b) + 1)) (Suc (length b))"
    using safeio_guard_allows [OF safeio_specD(2) [OF assms(1)], of "Suc (length b)"] by (simp add: add.commute)
  then have "case path_spec b of
      Some ns \<Rightarrow> dp_loop sio b (NewLoopGuard sio (int (length b) + 1)) 0 [] = Ok ns
    | None \<Rightarrow> \<exists>e. dp_loop sio b (NewLoopGuard sio (int (length b) + 1)) 0 [] = Err e"
    using dp_loop_spec [OF safeio_specD(1) [OF assms(1)], of 0 b "NewLoopGuard sio (int (length b) + 1)" "[]"]
    by (cases "path_spec b") (simp_all del: guard_allows.simps)
  with assms(2) show ?thesis
    by (cases "path_spec b") (simp_all add: ParseDevicePath_def)
qed

lemma ParseDevicePath_Ok_iff:
  assumes "safeio_spec sio"
  shows "ParseDevicePath sio b = Ok ns \<longleftrightarrow> length b \<le> maxDevicePathBytes \<and> path_spec b = Some ns"
proof (cases "length b \<le> maxDevicePathBytes")
  case True
  from ParseDevicePath_spec [OF assms True] True show ?thesis
    by (cases "path_spec b") auto
qed (simp add: ParseDevicePath_def)

lemma ParseDevicePath_not_Panic: "safeio_spec sio \<Longrightarrow> ParseDevicePath sio b \<noteq> Panic"
  using ParseDevicePath_spec [of sio b]
  by (cases "length b \<le> maxDevicePathBytes"; cases "path_spec b") (auto simp: ParseDevicePath_def)

definition end_node :: DevicePathNode where
  "end_node = \<lparr> dpType = DevPathTypeEnd, dpSubType = DevPathEndEntire, dpData = [] \<rparr>"

lemma end_node_facts: "isEnd end_node" "node_Length end_node = 4"
  "node_bytes end_node = [DevPathTypeEnd, DevPathEndEntire, of_nat devPathHeaderSize, 0x00]"
  by (simp_all add: end_node_def isEnd_def node_Length_def devPathHeaderSize_def node_bytes_def le16_bytes_def)

lemma marshal_nodes_Ok:
  "marshal_nodes ns buf = Ok out \<longleftrightarrow> plain_nodes ns \<and> out = buf @ wire_nodes ns"
proof (induction ns arbitrary: buf)
  case (Cons n ns)
  then show ?case
    by (auto simp: plain_nodes_def wire_nodes_def node_bytes_def)
qed (auto simp: plain_nodes_def wire_nodes_def)

lemma MarshalDevicePath_Ok_iff:
  "MarshalDevicePath ns = Ok out \<longleftrightarrow> plain_nodes ns \<and> out = wire_nodes ns @ node_bytes end_node"
  by (auto simp: MarshalDevicePath_def bindR_Ok_iff marshal_nodes_Ok end_node_facts)

subsection \<open>Properties\<close>

text \<open>Property C9. Parsing device paths is exact on arbitrary bytes: ParseDevicePath accepts a
  blob exactly when it is at most 64 KiB and consists of nodes with honest 16-bit lengths up to
  a first End node, and it then returns those nodes; every other input is an error, and none
  makes it panic or read outside the blob.\<close>

theorem ParseDevicePath_exact:
  assumes "safeio_spec sio"
  shows "(ParseDevicePath sio b = Ok ns \<longleftrightarrow>
      length b \<le> maxDevicePathBytes \<and> plain_nodes ns \<and>
      (\<exists>e rest. isEnd e \<and> node_Length e \<le> 0xFFFF \<and> b = wire_nodes ns @ node_bytes e @ rest)) \<and>
    ParseDevicePath sio b \<noteq> Panic"
  using ParseDevicePath_Ok_iff [OF assms] ParseDevicePath_not_Panic [OF assms] path_spec_iff by blast

text \<open>Property C24. Marshal then parse: whatever MarshalDevicePath produces within the 64 KiB
  ceiling, ParseDevicePath reads back as the same node list, also when other bytes follow.\<close>

theorem Marshal_Parse_roundtrip:
  assumes "safeio_spec sio" and "MarshalDevicePath ns = Ok b" and "length (b @ rest) \<le> maxDevicePathBytes"
  shows "ParseDevicePath sio (b @ rest) = Ok ns"
proof -
  have "plain_nodes ns" and b: "b = wire_nodes ns @ node_bytes end_node"
    using assms(2) by (simp_all add: MarshalDevicePath_Ok_iff)
  then have "path_spec (b @ rest) = Some ns"
    using path_spec_wire [of ns end_node rest] by (simp add: end_node_facts)
  with assms(3) show ?thesis
    by (simp only: ParseDevicePath_Ok_iff [OF assms(1)])
qed

text \<open>Property C25. Parse then marshal: the nodes of any blob that ParseDevicePath accepts can be
  marshalled, the result agrees with the blob up to the terminator, and it is the blob itself
  exactly when the blob ends with a plain 4-byte terminator there.\<close>

theorem Parse_Marshal_roundtrip:
  assumes "safeio_spec sio" and "ParseDevicePath sio b = Ok ns"
  shows "\<exists>p rest. MarshalDevicePath ns = Ok (p @ [0x7F, 0xFF, 4, 0]) \<and> b = p @ rest \<and>
    take 2 rest = [0x7F, 0xFF] \<and> (MarshalDevicePath ns = Ok b \<longleftrightarrow> rest = [0x7F, 0xFF, 4, 0])"
proof -
  obtain e r where ns: "plain_nodes ns" and e: "isEnd e" and b: "b = wire_nodes ns @ node_bytes e @ r"
    using assms(2) path_spec_Some [of b ns] by (auto simp: ParseDevicePath_Ok_iff [OF assms(1)])
  have "node_bytes end_node = [0x7F, 0xFF, 4, 0]"
    by (simp add: end_node_facts dev_consts devPathHeaderSize_def)
  moreover have "take 2 (node_bytes e @ r) = [0x7F, 0xFF]"
    using e by (simp add: node_bytes_def isEnd_def dev_consts)
  ultimately show ?thesis
    using ns b by (intro exI [of _ "wire_nodes ns"] exI [of _ "node_bytes e @ r"])
      (auto simp: MarshalDevicePath_Ok_iff)
qed

text \<open>Typed nodes: a hard-drive node reads back as the record it was built from,
  and a file-path node as its path.\<close>

theorem typed_node_roundtrip:
  "HardDrive (Node drv) = Ok (Some drv) \<and> FilePath (FilePathNode p) = Some (string_of_runes (runes_of_string p))"
proof -
  have "HardDrive (Node drv) = Ok (Some drv)"
    by (simp add: HardDrive_def Node_def slice_from_def slice_def index_def codec_simps nth_append)
  then show ?thesis
    by (simp add: FilePath_def FilePathNode_def DecodeUTF16LE_Encode)
qed

lemma HardDrive_not_Panic: "\<exists>h. HardDrive n = Ok h"
  by (auto simp: HardDrive_def slice_from_def slice_def index_def Uint32_def Uint64_def)

lemma node_text_Ok: "\<exists>t. node_text n = Ok t"
  unfolding node_text_def
  by (intro Ok_rules HardDrive_not_Panic; (elim conjE)?; linarith)

text \<open>The text form is total: every node list, whatever its types, subtypes and
  data lengths, is rendered, one part per node, without an out-of-range access.\<close>

theorem DevicePathText_total:
  "\<exists>parts. texts ns = Ok parts \<and> length parts = length ns \<and> DevicePathText ns = Ok (join ''/'' parts)"
proof -
  have "\<exists>parts. texts ns = Ok parts \<and> length parts = length ns"
  proof (induction ns)
    case (Cons n ns)
    obtain t where "node_text n = Ok t"
      using node_text_Ok by blast
    with Cons show ?case by auto
  qed simp
  then show ?thesis
    by (auto simp: DevicePathText_def)
qed

text \<open>The text form does not identify a node: a vendor node, a firmware-file node
  and a firmware-volume node with the same GUID are different nodes with the same text.\<close>

theorem DevicePathText_not_injective:
  "length d \<ge> 16 \<Longrightarrow>
   node_text \<lparr> dpType = 0x04, dpSubType = 0x03, dpData = d \<rparr> = node_text \<lparr> dpType = 0x04, dpSubType = 0x06, dpData = d \<rparr> \<and>
   node_text \<lparr> dpType = 0x04, dpSubType = 0x03, dpData = d \<rparr> = node_text \<lparr> dpType = 0x04, dpSubType = 0x07, dpData = d \<rparr>"
  by (simp add: node_text_def dev_consts)

subsection \<open>Witnesses\<close>

definition demo_node :: DevicePathNode where
  "demo_node = \<lparr> dpType = 0x01, dpSubType = 0x01, dpData = [0x00, 0x1f] \<rparr>"

lemma demo_marshal: "MarshalDevicePath [demo_node] = Ok [0x01, 0x01, 0x06, 0, 0x00, 0x1f, 0x7F, 0xFF, 4, 0]"
  by (simp add: MarshalDevicePath_def demo_node_def isEnd_def node_Length_def devPathHeaderSize_def dev_consts le16_bytes_def)

theorem ParseDevicePath_exact_witness:
  "ParseDevicePath counting_safeio [0x7F, 0xFF, 4, 0, 9] = Ok []"
proof -
  have "[0x7F, 0xFF, 4, 0, 9] = wire_nodes [] @ node_bytes end_node @ [9]"
    by (simp add: wire_nodes_def end_node_facts dev_consts devPathHeaderSize_def)
  then have "\<exists>e rest. isEnd e \<and> node_Length e \<le> 0xFFFF \<and> [0x7F, 0xFF, 4, 0, 9] = wire_nodes [] @ node_bytes e @ rest"
    using end_node_facts(1,2) by (metis numeral_le_iff semiring_norm(68,72))
  with ParseDevicePath_exact [OF counting_safeio_spec, of "[0x7F, 0xFF, 4, 0, 9]" "[]"] show ?thesis
    by (simp add: maxDevicePathBytes_def plain_nodes_def)
qed

theorem Marshal_Parse_roundtrip_witness:
  "ParseDevicePath counting_safeio [0x01, 0x01, 0x06, 0, 0x00, 0x1f, 0x7F, 0xFF, 4, 0, 0xAB] = Ok [demo_node]"
  using Marshal_Parse_roundtrip [OF counting_safeio_spec demo_marshal, of "[0xAB]"] by (simp add: maxDevicePathBytes_def)

theorem Parse_Marshal_roundtrip_witness:
  "\<exists>p rest. MarshalDevicePath [demo_node] = Ok (p @ [0x7F, 0xFF, 4, 0]) \<and>
     [0x01, 0x01, 0x06, 0, 0x00, 0x1f, 0x7F, 0xFF, 4, 0] = p @ rest \<and> take 2 rest = [0x7F, 0xFF]"
proof -
  have m: "plain_nodes [demo_node]"
    "[0x01, 0x01, 0x06, 0, 0x00, 0x1f, 0x7F, 0xFF, 4, 0] = wire_nodes [demo_node] @ node_bytes end_node"
    using demo_marshal unfolding MarshalDevicePath_Ok_iff by blast+
  have "path_spec ([0x01, 0x01, 0x06, 0, 0x00, 0x1f, 0x7F, 0xFF, 4, 0]) = Some [demo_node]"
    unfolding m(2) using path_spec_wire [OF m(1) end_node_facts(1), of "[]"] by (simp add: end_node_facts(2))
  then have "ParseDevicePath counting_safeio [0x01, 0x01, 0x06, 0, 0x00, 0x1f, 0x7F, 0xFF, 4, 0] = Ok [demo_node]"
    by (simp add: ParseDevicePath_Ok_iff [OF counting_safeio_spec] maxDevicePathBytes_def)
  from Parse_Marshal_roundtrip [OF counting_safeio_spec this] show ?thesis
    by blast
qed

theorem DevicePathText_not_injective_witness:
  "node_text \<lparr> dpType = 0x04, dpSubType = 0x03, dpData = make_bytes 16 \<rparr> =
   node_text \<lparr> dpType = 0x04, dpSubType = 0x06, dpData = make_bytes 16 \<rparr>"
  using DevicePathText_not_injective [of "make_bytes 16"] by (simp only: length_replicate order_refl)

end
