(* ===== verification/Load_Option.thy ===== *)
theory Load_Option
  imports Device_Path
begin

text \<open>
  EFI load options, the values of \<open>Boot####\<close> variables (bootvars.go): \<open>ParseLoadOption\<close> on
  untrusted bytes, \<open>Marshal\<close>, and the round trips between them.
\<close>

definition LoadOptionActive :: u32 where "LoadOptionActive = 0x00000001"
definition LoadOptionForceReconnect :: u32 where "LoadOptionForceReconnect = 0x00000002"
definition LoadOptionHidden :: u32 where "LoadOptionHidden = 0x00000008"
definition LoadOptionCategoryMask :: u32 where "LoadOptionCategoryMask = 0x00001F00"
definition LoadOptionCategoryBoot :: u32 where "LoadOptionCategoryBoot = 0x00000000"
definition LoadOptionCategoryApp :: u32 where "LoadOptionCategoryApp = 0x00000100"

definition maxLoadOptionBytes :: nat where "maxLoadOptionBytes = 64 * 1024"

record LoadOption =
  loAttributes :: u32
  loDescription :: string
  loDevicePath :: "DevicePathNode list"
  loOptionalData :: bytes

text \<open>The scan for the description's terminator: its offset, or \<open>None\<close> when there is none.\<close>

function desc_scan :: "'g safeio \<Rightarrow> bytes \<Rightarrow> 'g \<Rightarrow> nat \<Rightarrow> nat option res" where
  "desc_scan sio b g i =
     (if i + 2 \<le> length b then
        (case GuardNext sio g of
           Inl e \<Rightarrow> Err (Wrap ''uefi: load option: %w'' e)
         | Inr g' \<Rightarrow>
             bindR (index b i) (\<lambda>x. bindR (index b (i + 1)) (\<lambda>y.
             if x = 0x00 \<and> y = 0x00 then Ok (Some i) else desc_scan sio b g' (i + 2))))
      else Ok None)"
  by pat_completeness auto
termination
  by (relation "measure (\<lambda>(sio, b, g, i). length b - i)") auto

declare desc_scan.simps [simp del]

text \<open>The part after the description: device path and optional data.\<close>

definition load_option_tail ::
  "'g safeio \<Rightarrow> bytes \<Rightarrow> u32 \<Rightarrow> nat \<Rightarrow> string \<Rightarrow> nat \<Rightarrow> LoadOption res" where
  "load_option_tail sio b attrs fpLen desc dpStart =
     check (CheckBounds sio (int dpStart) (int fpLen) (int (length b)))
       ''uefi: load option: device path extends beyond buffer: %w'' (
     bindR (slice b dpStart (dpStart + fpLen)) (\<lambda>dpBytes.
     bindR (if fpLen > 0 then wrap_err ''uefi: load option: %w'' (ParseDevicePath sio dpBytes) else Ok []) (\<lambda>nodes.
     let optStart = dpStart + fpLen in
     bindR (slice_from b optStart) (\<lambda>rest.
     Ok \<lparr> loAttributes = attrs, loDescription = desc, loDevicePath = nodes,
          loOptionalData = copy_bytes (make_bytes (length b - optStart)) rest \<rparr>))))"

definition ParseLoadOption :: "'g safeio \<Rightarrow> bytes \<Rightarrow> LoadOption res" where
  "ParseLoadOption sio b =
     (if length b > maxLoadOptionBytes then Err (Leaf ''uefi: load option: %d bytes exceeds ceiling %d'')
      else
        check (CheckBounds sio 0 6 (int (length b))) ''uefi: load option: header truncated: %w'' (
        bindR (bindR (slice b 0 4) Uint32) (\<lambda>attrs.
        bindR (bindR (slice b 4 6) Uint16) (\<lambda>fp.
        bindR (desc_scan sio b (NewLoopGuard sio (int (length b) + 1)) 6) (\<lambda>descEnd.
        case descEnd of
          None \<Rightarrow> Err (Leaf ''uefi: load option: unterminated description'')
        | Some e \<Rightarrow>
            bindR (slice b 6 e) (\<lambda>d.
            bindR (wrap_err ''uefi: load option: description: %w'' (DecodeUTF16LE d)) (\<lambda>desc.
            load_option_tail sio b attrs (unat fp) desc (e + 2))))))))"

definition Marshal_LoadOption :: "LoadOption \<Rightarrow> bytes res" where
  "Marshal_LoadOption lo =
     bindR (MarshalDevicePath (loDevicePath lo)) (\<lambda>dp.
     let dpBytes = (if length (loDevicePath lo) = 0 then [] else dp) in
     if length dpBytes > 0xFFFF then Err (Leaf ''uefi: load option: device path length %d overflows uint16'')
     else
       let descBytes = EncodeUTF16LE (loDescription lo) in
       Ok ((le32_bytes (loAttributes lo) @ le16_bytes (of_nat (length dpBytes))) @ descBytes @ dpBytes @
           loOptionalData lo))"

definition LoadOption_Text :: "LoadOption \<Rightarrow> string res" where
  "LoadOption_Text lo = DevicePathText (loDevicePath lo)"

subsection \<open>The terminator scan\<close>

lemma le16_bytes_zero: "le16_bytes u = [0, 0] \<longleftrightarrow> u = 0"
proof
  assume "le16_bytes u = [0, 0]"
  then have "u = le16 0 0"
    by (metis le16_bytes_def le16_roundtrip list.inject)
  then show "u = 0"
    by (simp add: le16_def)
qed (simp add: le16_bytes_def)

lemma desc_scan_step:
  assumes "i + 2 \<le> length b" "GuardNext sio g = Inr g'"
  shows "desc_scan sio b g i =
    (if b ! i = 0 \<and> b ! (i + 1) = 0 then Ok (Some i) else desc_scan sio b g' (i + 2))"
proof -
  have "index b i = Ok (b ! i)" "index b (i + 1) = Ok (b ! (i + 1))"
    using assms(1) by (simp_all add: index_def)
  then show ?thesis
    using assms by (subst desc_scan.simps) simp
qed

lemma desc_scan_units:
  assumes "0 \<notin> set us"
  shows "drop i b = concat (map le16_bytes us) @ [0, 0] @ rest \<Longrightarrow> guard_allows sio g (Suc (length us)) \<Longrightarrow>
    desc_scan sio b g i = Ok (Some (i + 2 * length us))"
  using assms
proof (induction us arbitrary: i g)
  case Nil
  obtain g' where g': "GuardNext sio g = Inr g'"
    using guard_allows_SucD [OF Nil.prems(2)] by blast
  have len: "i + 2 \<le> length b"
    using arg_cong [OF Nil.prems(1), of length] by simp
  have "b ! i = drop i b ! 0" "b ! (i + 1) = drop i b ! 1"
    using len by simp_all
  then show ?case
    using desc_scan_step [OF len g'] Nil.prems(1) by simp
next
  case (Cons u us)
  obtain g' where g': "GuardNext sio g = Inr g'" "guard_allows sio g' (Suc (length us))"
    using guard_allows_SucD [of sio g "Suc (length us)"] Cons.prems(2) by auto
  obtain x y where u: "le16_bytes u = [x, y]"
    by (simp add: le16_bytes_def)
  have d: "drop i b = x # y # concat (map le16_bytes us) @ [0, 0] @ rest"
    using Cons.prems(1) u by simp
  have len: "i + 2 \<le> length b"
    using arg_cong [OF d, of length] by simp
  have "b ! i = drop i b ! 0" "b ! (i + 1) = drop i b ! 1"
    using len by simp_all
  then have "b ! i = x" "b ! (i + 1) = y"
    using d by simp_all
  moreover have "\<not> (x = 0 \<and> y = 0)"
    using le16_bytes_zero [of u] u Cons.prems(3) by auto
  ultimately have "desc_scan sio b g i = desc_scan sio b g' (i + 2)"
    using desc_scan_step [OF len g'(1)] by metis
  moreover have "drop (i + 2) b = drop 2 (drop i b)"
    by (simp only: drop_drop add.commute)
  then have "drop (i + 2) b = concat (map le16_bytes us) @ [0, 0] @ rest"
    by (simp add: d)
  ultimately show ?case
    using Cons.IH [OF _ g'(2), of "i + 2"] Cons.prems(3) by simp
qed

lemma desc_scan_Some:
  "desc_scan sio b g i = Ok (Some e) \<Longrightarrow>
     i \<le> e \<and> e + 2 \<le> length b \<and> (e - i) mod 2 = 0 \<and> b ! e = 0 \<and> b ! (e + 1) = 0 \<and>
     0 \<notin> set (units_of_bytes (take (e - i) (drop i b)))"
proof (induction sio b g i rule: desc_scan.induct)
  case (1 sio b g i)
  obtain g' where g': "GuardNext sio g = Inr g'" and len: "i + 2 \<le> length b"
    using "1.prems" by (subst (asm) desc_scan.simps) (auto split: if_splits sum.splits)
  have rd: "index b i = Ok (b ! i)" "index b (i + 1) = Ok (b ! (i + 1))"
    using len by (simp_all add: index_def)
  show ?case
  proof (cases "b ! i = 0 \<and> b ! (i + 1) = 0")
    case True
    then have "e = i"
      using "1.prems" desc_scan_step [OF len g'] by simp
    with True len show ?thesis by simp
  next
    case False
    then have rec: "desc_scan sio b g' (i + 2) = Ok (Some e)"
      using "1.prems" desc_scan_step [OF len g'] by metis
    note IH = "1.IH" [OF len g' rd False rec]
    have "e - i = Suc (Suc (e - (i + 2)))"
      using conjunct1 [OF IH] by linarith
    moreover have "drop i b = b ! i # b ! (i + 1) # drop (i + 2) b"
      using len by (simp add: Cons_nth_drop_Suc)
    moreover have "le16 (b ! i) (b ! (i + 1)) \<noteq> 0"
      using False le16_bytes_zero [of "le16 (b ! i) (b ! (i + 1))"] by (auto simp: le16_bytes_le16)
    ultimately show ?thesis
      using IH by auto
  qed
qed

lemma desc_scan_not_Panic: "desc_scan sio b g i \<noteq> Panic"
proof (induction sio b g i rule: desc_scan.induct)
  case (1 sio b g i)
  show ?case
  proof (cases "i + 2 \<le> length b")
    case True
    then have rd: "index b i = Ok (b ! i)" "index b (i + 1) = Ok (b ! (i + 1))"
      by (simp_all add: index_def)
    with True "1.IH" [OF True _ rd] show ?thesis
      by (subst desc_scan.simps) (simp split: sum.split)
  qed (subst desc_scan.simps, simp)
qed

subsection \<open>Marshal, then parse\<close>

text \<open>A description without NUL characters ends at its own terminator.\<close>

definition no_nul :: "string \<Rightarrow> bool" where
  "no_nul s \<longleftrightarrow> 0 \<notin> set (utf16_Encode (runes_of_string s))"

lemma decode_units:
  assumes "length d mod 2 = 0" "0 \<notin> set (units_of_bytes d)"
  shows "DecodeUTF16LE d = Ok (string_of_runes (utf16_Decode (units_of_bytes d)))"
proof -
  have "\<not> (0 < length (units_of_bytes d) \<and> units_of_bytes d ! (length (units_of_bytes d) - 1) = 0)"
    using assms(2) by (metis diff_less nth_mem zero_less_one)
  with assms(1) show ?thesis
    by (auto simp: DecodeUTF16LE_def Let_def)
qed

lemma parse_wire:
  assumes spec: "safeio_spec sio"
    and b: "b = le32_bytes attrs @ le16_bytes (of_nat (length dp)) @ concat (map le16_bytes us) @ [0, 0] @ dp @ opt"
    and len: "length b \<le> maxLoadOptionBytes" "length dp \<le> 0xFFFF" and us: "0 \<notin> set us"
    and nodes: "(if length dp > 0 then ParseDevicePath sio dp else Ok []) = Ok nodes"
  shows "ParseLoadOption sio b = Ok \<lparr> loAttributes = attrs, loDescription = string_of_runes (utf16_Decode us),
    loDevicePath = nodes, loOptionalData = opt \<rparr>"
proof -
  note sb = safeio_specD(1) [OF spec]
  let ?e = "6 + 2 * length us"
  have lb: "length b = ?e + 2 + length dp + length opt"
    by (simp add: b)
  have c: "CheckBounds sio 0 6 (int (length b)) = None"
    "CheckBounds sio (int (?e + 2)) (int (length dp)) (int (length b)) = None"
    by (simp_all add: CheckBounds_None [OF sb] lb)
  have rd: "bindR (slice b 0 4) Uint32 = Ok attrs" "bindR (slice b 4 6) Uint16 = Ok (of_nat (length dp))"
    using Uint32_bytes [of attrs "[]"] Uint16_bytes [of "of_nat (length dp)" "[]"]
    by (simp_all add: b slice_def)
  have fp: "unat (of_nat (length dp) :: u16) = length dp"
    using len(2) by (intro unat_of_nat_u16) simp
  have d6: "drop 6 b = concat (map le16_bytes us) @ [0, 0] @ (dp @ opt)"
    by (simp add: b)
  have "int (Suc (length b)) = int (length b) + 1" "Suc (length us) \<le> Suc (length b)"
    by (simp_all add: lb)
  then have "guard_allows sio (NewLoopGuard sio (int (length b) + 1)) (Suc (length us))"
    using guard_allows_mono [OF safeio_guard_allows [OF safeio_specD(2) [OF spec], of "Suc (length b)"]] by metis
  from desc_scan_units [OF us d6 this]
  have scan: "desc_scan sio b (NewLoopGuard sio (int (length b) + 1)) 6 = Ok (Some ?e)" .
  have desc: "slice b 6 ?e = Ok (concat (map le16_bytes us))"
    by (simp add: slice_Ok lb) (simp add: b)
  have dec: "DecodeUTF16LE (concat (map le16_bytes us)) = Ok (string_of_runes (utf16_Decode us))"
    using decode_units [of "concat (map le16_bytes us)"] us by (simp add: units_of_le16_bytes)
  have dpb: "slice b (?e + 2) (?e + 2 + length dp) = Ok dp"
    by (simp add: slice_Ok lb) (simp add: b)
  have opt: "slice_from b (?e + 2 + length dp) = Ok opt"
    by (simp add: slice_from_Ok lb) (simp add: b)
  have cp: "copy_bytes (make_bytes (length b - (?e + 2 + length dp))) opt = opt"
    by (intro copy_bytes_same) (simp add: lb)
  have "wrap_err ''uefi: load option: %w'' (ParseDevicePath sio dp) = Ok nodes" if "length dp > 0"
    using nodes that by simp
  then have tail: "load_option_tail sio b attrs (length dp) (string_of_runes (utf16_Decode us)) (?e + 2) =
      Ok \<lparr> loAttributes = attrs, loDescription = string_of_runes (utf16_Decode us), loDevicePath = nodes, loOptionalData = opt \<rparr>"
    using nodes unfolding load_option_tail_def c check_None dpb bindR.simps Let_def opt cp
    by (cases "length dp > 0") simp_all
  show ?thesis
    using len(1) unfolding ParseLoadOption_def c check_None rd bindR.simps scan option.case desc dec fp wrap_err_simps tail
    by simp
qed

lemma Marshal_LoadOption_Ok:
  assumes "Marshal_LoadOption lo = Ok b"
  obtains dp where "(if loDevicePath lo = [] then dp = [] else MarshalDevicePath (loDevicePath lo) = Ok dp)"
    "length dp \<le> 0xFFFF"
    "b = le32_bytes (loAttributes lo) @ le16_bytes (of_nat (length dp)) @
       concat (map le16_bytes (utf16_Encode (runes_of_string (loDescription lo)))) @ [0, 0] @ dp @ loOptionalData lo"
  using assms
  by (auto simp: Marshal_LoadOption_def bindR_Ok_iff Let_def EncodeUTF16LE_def le16_bytes_def [of 0] not_less split: if_splits)

lemma LoadOption_Marshal_Parse:
  assumes "safeio_spec sio" and "Marshal_LoadOption lo = Ok b" and "length b \<le> maxLoadOptionBytes"
    and "no_nul (loDescription lo)"
  shows "ParseLoadOption sio b = Ok (lo\<lparr>loDescription := string_of_runes (runes_of_string (loDescription lo))\<rparr>)"
proof -
  obtain dp where dp: "if loDevicePath lo = [] then dp = [] else MarshalDevicePath (loDevicePath lo) = Ok dp"
    "length dp \<le> 0xFFFF"
    and b: "b = le32_bytes (loAttributes lo) @ le16_bytes (of_nat (length dp)) @
       concat (map le16_bytes (utf16_Encode (runes_of_string (loDescription lo)))) @ [0, 0] @ dp @ loOptionalData lo"
    by (rule Marshal_LoadOption_Ok [OF assms(2)])
  have "(if length dp > 0 then ParseDevicePath sio dp else Ok []) = Ok (loDevicePath lo)"
  proof (cases "loDevicePath lo = []")
    case False
    then have m: "MarshalDevicePath (loDevicePath lo) = Ok dp"
      using dp(1) by simp
    then have "path_spec dp = Some (loDevicePath lo)" "0 < length dp"
      using path_spec_wire [of "loDevicePath lo" end_node "[]"]
      by (auto simp: MarshalDevicePath_Ok_iff end_node_facts)
    moreover have "length dp \<le> maxDevicePathBytes"
      using dp(2) by (simp add: maxDevicePathBytes_def)
    ultimately show ?thesis
      by (simp add: ParseDevicePath_Ok_iff [OF assms(1)])
  qed (use dp in simp)
  from parse_wire [OF assms(1) b assms(3) dp(2) assms(4) [unfolded no_nul_def] this] show ?thesis
    by (simp add: utf16_roundtrip runes_of_string_scalar)
qed

text \<open>Property C16. Marshal then parse: whatever load option Marshal encodes within the 64 KiB
  ceiling, with a description free of NUL characters, ParseLoadOption reads back with the
  same attributes, device path and optional data, and the description as UTF-16 keeps it.\<close>

theorem LoadOption_roundtrip:
  assumes "safeio_spec sio" and "Marshal_LoadOption lo = Ok b" and "length b \<le> maxLoadOptionBytes"
    and "no_nul (loDescription lo)"
  shows "ParseLoadOption sio b = Ok (lo\<lparr>loDescription := string_of_runes (runes_of_string (loDescription lo))\<rparr>)"
  by (rule LoadOption_Marshal_Parse [OF assms])

subsection \<open>Parsing untrusted bytes\<close>

lemma load_option_tail_not_Panic:
  assumes spec: "safeio_spec sio"
  shows "load_option_tail sio b attrs fpLen desc dpStart \<noteq> Panic"
proof (cases "CheckBounds sio (int dpStart) (int fpLen) (int (length b))")
  case None
  then have "dpStart + fpLen \<le> length b"
    by (simp add: CheckBounds_None [OF safeio_specD(1) [OF spec]])
  then show ?thesis
    using ParseDevicePath_not_Panic [OF spec]
    by (auto simp: load_option_tail_def None slice_Ok slice_from_Ok bindR_Panic_iff Let_def split: if_splits)
qed (simp add: load_option_tail_def)

lemma ParseLoadOption_not_Panic:
  assumes "safeio_spec sio"
  shows "ParseLoadOption sio b \<noteq> Panic"
proof (cases "CheckBounds sio 0 6 (int (length b))")
  case None
  then have len: "6 \<le> length b"
    by (simp add: CheckBounds_None [OF safeio_specD(1) [OF assms]])
  have rd: "bindR (slice b 0 4) Uint32 \<noteq> Panic" "bindR (slice b 4 6) Uint16 \<noteq> Panic"
    using len by (simp_all add: slice_Ok Uint32_def Uint16_def)
  have sl: "slice b 6 e \<noteq> Panic" if "desc_scan sio b g 6 = Ok (Some e)" for g e
    using desc_scan_Some [OF that] by (simp add: slice_Ok)
  show ?thesis
    using rd sl desc_scan_not_Panic [of sio] load_option_tail_not_Panic [OF assms]
    by (auto simp: ParseLoadOption_def None bindR_Panic_iff split: option.splits)
qed (simp add: ParseLoadOption_def)


text \<open>Parsing a load option never panics and never reads outside its input,
  whatever bytes it is given.\<close>

theorem ParseLoadOption_never_panics:
  assumes "safeio_spec sio"
  shows "ParseLoadOption sio b \<noteq> Panic"
  by (rule ParseLoadOption_not_Panic [OF assms])

subsection \<open>Parse, then marshal\<close>

lemma bytes_of_units: "length b mod 2 = 0 \<Longrightarrow> concat (map le16_bytes (units_of_bytes b)) = b"
  by (induction b rule: units_of_bytes.induct) (auto simp: le16_bytes_le16)

lemma split_at_terminator:
  assumes "6 \<le> e" "e + 2 \<le> length b" "b ! e = 0" "b ! (e + 1) = 0" "e + 2 + n \<le> length b"
  shows "b = take 6 b @ take (e - 6) (drop 6 b) @ [0, 0] @ take n (drop (e + 2) b) @ drop (e + 2 + n) b"
proof -
  have "drop e b = [b ! e, b ! (e + 1)] @ drop (e + 2) b"
    using assms(2) by (simp add: Cons_nth_drop_Suc)
  moreover have "drop 6 b = take (e - 6) (drop 6 b) @ drop e b"
    using assms(1) by (metis append_take_drop_id drop_drop le_add_diff_inverse2)
  moreover have "drop (e + 2) b = take n (drop (e + 2) b) @ drop (e + 2 + n) b"
    by (metis add.commute append_take_drop_id drop_drop)
  moreover have "b = take 6 b @ drop 6 b"
    by simp
  ultimately show ?thesis
    using assms(3,4) by metis
qed

lemma load_header:
  assumes "6 \<le> length b"
  shows "take 6 b = le32_bytes (u32_at b 0) @ le16_bytes (u16_at b 4)"
    "bindR (slice b 0 4) Uint32 = Ok (u32_at b 0)" "bindR (slice b 4 6) Uint16 = Ok (u16_at b 4)"
proof -
  have "take 6 b = [b ! 0, b ! 1, b ! 2, b ! 3, b ! 4, b ! 5]"
    using assms by (intro nth_equalityI) (auto simp: less_Suc_eq numeral_eq_Suc)
  then show "take 6 b = le32_bytes (u32_at b 0) @ le16_bytes (u16_at b 4)"
    by (simp add: u32_at_def u16_at_def le32_bytes_le32 le16_bytes_le16 numeral_2_eq_2)
  show "bindR (slice b 0 4) Uint32 = Ok (u32_at b 0)" "bindR (slice b 4 6) Uint16 = Ok (u16_at b 4)"
    using assms by (simp_all add: slice_Ok Uint32_def Uint16_def u32_at_def u16_at_def numeral_2_eq_2)
qed

lemma load_option_tail_Ok:
  assumes spec: "safeio_spec sio" and ok: "load_option_tail sio b attrs n desc k = Ok lo"
  shows "k + n \<le> length b" "loAttributes lo = attrs" "loDescription lo = desc" "loOptionalData lo = drop (k + n) b"
    "if n = 0 then loDevicePath lo = [] else ParseDevicePath sio (take n (drop k b)) = Ok (loDevicePath lo)"
proof -
  have c: "CheckBounds sio (int k) (int n) (int (length b)) = None"
    using ok by (simp add: load_option_tail_def check_Ok_iff)
  then show len: "k + n \<le> length b"
    by (simp add: CheckBounds_None [OF safeio_specD(1) [OF spec]])
  have cp: "copy_bytes (make_bytes (length b - (k + n))) (drop (k + n) b) = drop (k + n) b"
    by (rule copy_bytes_same) simp
  have "\<exists>nodes. (if n > 0 then wrap_err ''uefi: load option: %w'' (ParseDevicePath sio (take n (drop k b))) else Ok []) = Ok nodes \<and>
      lo = \<lparr> loAttributes = attrs, loDescription = desc, loDevicePath = nodes, loOptionalData = drop (k + n) b \<rparr>"
    using ok len unfolding load_option_tail_def c check_None
    by (auto simp: slice_Ok slice_from_Ok bindR_Ok_iff Let_def cp)
  then show "loAttributes lo = attrs" "loDescription lo = desc" "loOptionalData lo = drop (k + n) b"
    "if n = 0 then loDevicePath lo = [] else ParseDevicePath sio (take n (drop k b)) = Ok (loDevicePath lo)"
    by (auto simp: wrap_err_Ok_iff split: if_splits)
qed

lemma ParseLoadOption_Ok:
  assumes spec: "safeio_spec sio" and ok: "ParseLoadOption sio b = Ok lo"
  obtains us dp where
    "b = le32_bytes (loAttributes lo) @ le16_bytes (of_nat (length dp)) @ concat (map le16_bytes us) @ [0, 0] @ dp @ loOptionalData lo"
    "0 \<notin> set us" "length dp \<le> 0xFFFF" "loDescription lo = string_of_runes (utf16_Decode us)"
    "if dp = [] then loDevicePath lo = [] else ParseDevicePath sio dp = Ok (loDevicePath lo)"
proof -
  have c: "CheckBounds sio 0 6 (int (length b)) = None"
    using ok by (auto simp: ParseLoadOption_def check_Ok_iff split: if_splits)
  then have "6 \<le> length b"
    by (simp add: CheckBounds_None [OF safeio_specD(1) [OF spec]])
  note h = load_header [OF this]
  let ?n = "unat (u16_at b 4)"
  obtain e desc where scan: "desc_scan sio b (NewLoopGuard sio (int (length b) + 1)) 6 = Ok (Some e)"
    and dec: "bindR (slice b 6 e) DecodeUTF16LE = Ok desc"
    and tail: "load_option_tail sio b (u32_at b 0) ?n desc (e + 2) = Ok lo"
    using ok unfolding ParseLoadOption_def c check_None h bindR.simps
    by (auto simp: bindR_Ok_iff wrap_err_Ok_iff split: if_splits option.splits)
  note s = desc_scan_Some [OF scan]
  note t = load_option_tail_Ok [OF spec tail]
  let ?d = "take (e - 6) (drop 6 b)"
  let ?dp = "take ?n (drop (e + 2) b)"
  define us where "us = units_of_bytes ?d"
  have ld: "length ?d mod 2 = 0" "length ?dp = ?n"
    using s t(1) by (auto simp: min_def)
  then have d: "concat (map le16_bytes us) = ?d"
    unfolding us_def by (intro bytes_of_units)
  have us: "0 \<notin> set us"
    using s by (simp add: us_def)
  have "DecodeUTF16LE ?d = Ok desc"
    using dec s by (simp add: slice_Ok)
  then have "desc = string_of_runes (utf16_Decode us)"
    using decode_units [OF ld(1)] us by (simp add: us_def)
  moreover have "b = le32_bytes (loAttributes lo) @ le16_bytes (of_nat (length ?dp)) @ concat (map le16_bytes us) @ [0, 0] @ ?dp @ loOptionalData lo"
    using split_at_terminator [of e b ?n] s t(1,2,4) h(1) unfolding d ld(2) by simp
  moreover have "length ?dp \<le> 0xFFFF"
    using unat_u16_less [of "u16_at b 4"] ld(2) by simp
  moreover have "if ?dp = [] then loDevicePath lo = [] else ParseDevicePath sio ?dp = Ok (loDevicePath lo)"
    using t(5) ld(2) by (metis length_0_conv)
  ultimately show ?thesis
    using that us t(3) by metis
qed

text \<open>Property C17. Parse then marshal: an accepted blob splits into header, description units,
  terminator, device path and optional data, and Marshal of the parsed load option gives the
  same bytes back when the description is well-formed UTF-16 and the device path is either
  absent or a non-empty node list in the form that MarshalDevicePath writes.\<close>

theorem LoadOption_Parse_Marshal:
  assumes "safeio_spec sio" and "ParseLoadOption sio b = Ok lo"
  shows "\<exists>us dp. b = le32_bytes (loAttributes lo) @ le16_bytes (of_nat (length dp)) @ concat (map le16_bytes us) @
      [0, 0] @ dp @ loOptionalData lo \<and>
    (utf16_Encode (utf16_Decode us) = us \<and>
     (dp = [] \<or> loDevicePath lo \<noteq> [] \<and> MarshalDevicePath (loDevicePath lo) = Ok dp) \<longrightarrow> Marshal_LoadOption lo = Ok b)"
proof -
  obtain us dp where b: "b = le32_bytes (loAttributes lo) @ le16_bytes (of_nat (length dp)) @ concat (map le16_bytes us) @
      [0, 0] @ dp @ loOptionalData lo"
    and r: "length dp \<le> 0xFFFF" "loDescription lo = string_of_runes (utf16_Decode us)"
    "if dp = [] then loDevicePath lo = [] else ParseDevicePath sio dp = Ok (loDevicePath lo)"
    by (rule ParseLoadOption_Ok [OF assms])
  have "Marshal_LoadOption lo = Ok b" if w: "utf16_Encode (utf16_Decode us) = us"
    "dp = [] \<or> loDevicePath lo \<noteq> [] \<and> MarshalDevicePath (loDevicePath lo) = Ok dp"
  proof -
    have "EncodeUTF16LE (loDescription lo) = concat (map le16_bytes us) @ [0, 0]"
      using w(1) by (simp add: EncodeUTF16LE_def r(2) runes_of_string_of_runes utf16_Decode_scalar le16_bytes_def [of 0])
    moreover have "\<exists>m. MarshalDevicePath (loDevicePath lo) = Ok m \<and> (if length (loDevicePath lo) = 0 then [] else m) = dp"
      using w(2) r(3) by (cases "dp = []") (auto simp: MarshalDevicePath_def)
    ultimately show ?thesis
      using r(1) by (auto simp: Marshal_LoadOption_def Let_def b)
  qed
  with b show ?thesis by blast
qed

text \<open>An End-only device path is lost: the load option with FilePathListLength 4
  whose path is just the terminator parses, and Marshal writes it with length 0.\<close>

theorem LoadOption_empty_path_not_inverse:
  assumes "safeio_spec sio"
  shows "\<exists>lo b'. ParseLoadOption sio ([1, 0, 0, 0, 4, 0] @ [0x41, 0, 0, 0] @ [0x7F, 0xFF, 4, 0]) = Ok lo \<and>
    Marshal_LoadOption lo = Ok b' \<and> b' = [1, 0, 0, 0, 0, 0] @ [0x41, 0, 0, 0]"
proof -
  let ?dp = "[0x7F, 0xFF, 4, 0] :: bytes"
  let ?lo = "\<lparr> loAttributes = 1, loDescription = string_of_runes (utf16_Decode [0x41]), loDevicePath = [], loOptionalData = [] \<rparr>"
  have "path_spec ?dp = Some []"
    using path_spec_node [of end_node "[]"] by (simp add: end_node_facts dev_consts devPathHeaderSize_def)
  then have dp: "(if length ?dp > 0 then ParseDevicePath sio ?dp else Ok []) = Ok []"
    by (simp add: ParseDevicePath_Ok_iff [OF assms] maxDevicePathBytes_def)
  have "[1, 0, 0, 0, 4, 0] @ [0x41, 0, 0, 0] @ ?dp =
      le32_bytes 1 @ le16_bytes (of_nat (length ?dp)) @ concat (map le16_bytes [0x41]) @ [0, 0] @ ?dp @ []"
    by (simp add: le32_bytes_def le16_bytes_def)
  from parse_wire [OF assms this _ _ _ dp]
  have "ParseLoadOption sio ([1, 0, 0, 0, 4, 0] @ [0x41, 0, 0, 0] @ ?dp) = Ok ?lo"
    by (simp add: maxLoadOptionBytes_def)
  moreover have "EncodeUTF16LE (string_of_runes (utf16_Decode [0x41])) = [0x41, 0, 0, 0]"
    by (simp add: EncodeUTF16LE_def runes_of_string_of_runes scalar_def utf16_Encode_def utf16_units_def le16_bytes_def)
  then have "Marshal_LoadOption ?lo = Ok ([1, 0, 0, 0, 0, 0] @ [0x41, 0, 0, 0])"
    by (simp add: Marshal_LoadOption_def MarshalDevicePath_def Let_def le32_bytes_def le16_bytes_def)
  ultimately show ?thesis by blast
qed

subsection \<open>Witnesses\<close>

definition demo_option :: LoadOption where
  "demo_option = \<lparr> loAttributes = 1, loDescription = ''A'', loDevicePath = [demo_node], loOptionalData = [7] \<rparr>"

lemma demo_option_wire:
  "Marshal_LoadOption demo_option =
     Ok [1, 0, 0, 0, 10, 0, 0x41, 0, 0, 0, 0x01, 0x01, 0x06, 0, 0x00, 0x1f, 0x7F, 0xFF, 4, 0, 7]"
  by (simp add: Marshal_LoadOption_def demo_option_def demo_marshal Let_def EncodeUTF16LE_def runes_of_ascii
      utf16_Encode_def utf16_units_def scalar_def le16_bytes_def le32_bytes_def)

lemma demo_option_parse:
  "ParseLoadOption counting_safeio
     [1, 0, 0, 0, 10, 0, 0x41, 0, 0, 0, 0x01, 0x01, 0x06, 0, 0x00, 0x1f, 0x7F, 0xFF, 4, 0, 7] = Ok demo_option"
proof -
  have "path_spec [0x01, 0x01, 0x06, 0, 0x00, 0x1f, 0x7F, 0xFF, 4, 0] = Some [demo_node]"
    using demo_marshal path_spec_wire [of "[demo_node]" end_node "[]"]
    unfolding MarshalDevicePath_Ok_iff by (simp only: append_Nil2 end_node_facts)
  then have dp: "(if length [0x01, 0x01, 0x06, 0, 0x00, 0x1f, 0x7F, 0xFF, 4, 0 :: byte] > 0
      then ParseDevicePath counting_safeio [0x01, 0x01, 0x06, 0, 0x00, 0x1f, 0x7F, 0xFF, 4, 0] else Ok []) = Ok [demo_node]"
    by (simp add: ParseDevicePath_Ok_iff [OF counting_safeio_spec] maxDevicePathBytes_def)
  have "[1, 0, 0, 0, 10, 0, 0x41, 0, 0, 0, 0x01, 0x01, 0x06, 0, 0x00, 0x1f, 0x7F, 0xFF, 4, 0, 7] =
      le32_bytes 1 @ le16_bytes (of_nat (length [0x01, 0x01, 0x06, 0, 0x00, 0x1f, 0x7F, 0xFF, 4, 0 :: byte])) @
      concat (map le16_bytes [0x41]) @ [0, 0] @ [0x01, 0x01, 0x06, 0, 0x00, 0x1f, 0x7F, 0xFF, 4, 0] @ [7]"
    by (simp add: le32_bytes_def le16_bytes_def)
  from parse_wire [OF counting_safeio_spec this _ _ _ dp] show ?thesis
    by (simp add: maxLoadOptionBytes_def demo_option_def string_of_runes_def encode_rune_def char_of_def bit_0)
qed

theorem LoadOption_roundtrip_witness:
  "\<exists>b. Marshal_LoadOption demo_option = Ok b \<and>
     ParseLoadOption counting_safeio b = Ok (demo_option\<lparr>loDescription := string_of_runes (runes_of_string ''A'')\<rparr>)"
proof -
  have "no_nul (loDescription demo_option)"
    by (simp add: no_nul_def demo_option_def runes_of_ascii utf16_Encode_def utf16_units_def scalar_def)
  from LoadOption_roundtrip [OF counting_safeio_spec demo_option_wire _ this] demo_option_wire show ?thesis
    by (simp add: maxLoadOptionBytes_def) (simp add: demo_option_def)
qed

theorem ParseLoadOption_never_panics_witness: "ParseLoadOption counting_safeio [1, 0, 0, 0, 255, 255, 0x41] \<noteq> Panic"
  by (rule ParseLoadOption_never_panics [OF counting_safeio_spec])

theorem LoadOption_Parse_Marshal_witness:
  "\<exists>us dp. [1, 0, 0, 0, 10, 0, 0x41, 0, 0, 0, 0x01, 0x01, 0x06, 0, 0x00, 0x1f, 0x7F, 0xFF, 4, 0, 7] =
     le32_bytes (loAttributes demo_option) @ le16_bytes (of_nat (length dp)) @ concat (map le16_bytes us) @
     [0, 0] @ dp @ loOptionalData demo_option"
  using LoadOption_Parse_Marshal [OF counting_safeio_spec demo_option_parse] by blast

theorem LoadOption_empty_path_not_inverse_witness:
  "\<exists>lo. ParseLoadOption counting_safeio ([1, 0, 0, 0, 4, 0] @ [0x41, 0, 0, 0] @ [0x7F, 0xFF, 4, 0]) = Ok lo \<and>
     Marshal_LoadOption lo = Ok ([1, 0, 0, 0, 0, 0] @ [0x41, 0, 0, 0])"
  using LoadOption_empty_path_not_inverse [OF counting_safeio_spec] by blast

end
