(* ===== verification/Go_Os.thy ===== *)
theory Go_Os
  imports Uefi_Prelude
begin

text \<open>
  The operating system as the package uses it: a map from paths to file contents, with the
  outcome of every read and write call decided by the environment. \<open>rscript\<close> and \<open>wscript\<close>
  list the outcomes of the next calls; an exhausted list means that the calls succeed.
  Reading can fail to open, fail to stat, fail after some bytes have been read, or meet a file
  that grows between the stat and the read. \<open>os.WriteFile\<close> truncates the file and then writes it: it can
  fail before it touches the file or leave a prefix of the new contents behind.
\<close>

datatype rfault = RdOk | RdOpenErr | RdStatErr | RdReadErr nat | RdGrow bytes
datatype wfault = WrOk | WrOpenErr | WrPartial nat

record os =
  files :: "string \<Rightarrow> bytes option"
  rscript :: "rfault list"
  wscript :: "wfault list"

definition next_read :: "os \<Rightarrow> rfault \<times> os" where
  "next_read w = (case rscript w of [] \<Rightarrow> (RdOk, w) | f # fs \<Rightarrow> (f, w\<lparr>rscript := fs\<rparr>))"

definition next_write :: "os \<Rightarrow> wfault \<times> os" where
  "next_write w = (case wscript w of [] \<Rightarrow> (WrOk, w) | f # fs \<Rightarrow> (f, w\<lparr>wscript := fs\<rparr>))"

text \<open>\<open>os.WriteFile\<close>; the permission bits play no part.\<close>

definition WriteFile_os :: "os \<Rightarrow> string \<Rightarrow> bytes \<Rightarrow> os \<times> unit res" where
  "WriteFile_os w p buf =
     (case next_write w of (f, w') \<Rightarrow>
      (case f of
         WrOk \<Rightarrow> (w'\<lparr>files := (files w')(p \<mapsto> buf)\<rparr>, Ok ())
       | WrOpenErr \<Rightarrow> (w', Err (ErrForeign 10))
       | WrPartial k \<Rightarrow> (w'\<lparr>files := (files w')(p \<mapsto> take k buf)\<rparr>, Err (ErrForeign 11))))"

text \<open>
  Opening and reading a file through \<open>io.LimitReader(f, n)\<close>: \<open>open_file\<close> gives the size that
  \<open>Stat\<close> reports (\<open>None\<close> when it fails) and a reader: the bytes that it delivers and the error
  that follows them, \<open>None\<close> for the end of the file. \<open>limit_read\<close> is \<open>io.ReadAll\<close> of the limited
  reader. After \<open>n\<close> bytes it reports the end of the file without another call of the reader
  below, so an error behind the limit is not met; a limit that is zero or negative delivers
  nothing.
\<close>

type_synonym reader = "bytes \<times> go_error option"

definition open_file :: "os \<Rightarrow> string \<Rightarrow> os \<times> (nat option \<times> reader) res" where
  "open_file w p =
     (case next_read w of (f, w') \<Rightarrow>
      (case files w' p of
         None \<Rightarrow> (w', Err ErrNotExist)
       | Some c \<Rightarrow>
           (case f of
              RdOk \<Rightarrow> (w', Ok (Some (length c), c, None))
            | RdOpenErr \<Rightarrow> (w', Err (ErrForeign 12))
            | RdStatErr \<Rightarrow> (w', Ok (None, c, None))
            | RdReadErr k \<Rightarrow> (w', Ok (Some (length c), take k c, Some (ErrForeign 13)))
            | RdGrow extra \<Rightarrow>
                (w'\<lparr>files := (files w')(p \<mapsto> c @ extra)\<rparr>, Ok (Some (length c), c @ extra, None)))))"

definition limit_read :: "reader \<Rightarrow> int \<Rightarrow> reader" where
  "limit_read rd n =
     (case rd of (bs, e) \<Rightarrow> if n \<le> int (length bs) then (take (nat n) bs, None) else (bs, e))"

text \<open>A quiet system: no call fails and no file changes by itself.\<close>

definition quiet :: "os \<Rightarrow> bool" where
  "quiet w \<longleftrightarrow> rscript w = [] \<and> wscript w = []"

lemma WriteFile_quiet:
  "quiet w \<Longrightarrow> WriteFile_os w p buf = (w\<lparr>files := (files w)(p \<mapsto> buf)\<rparr>, Ok ())"
  by (simp add: WriteFile_os_def next_write_def quiet_def)

lemma quiet_files [simp]: "quiet (w\<lparr>files := f\<rparr>) = quiet w"
  by (simp add: quiet_def)

lemma WriteFile_Ok: "WriteFile_os w p buf = (w', Ok ()) \<Longrightarrow> files w' = (files w)(p \<mapsto> buf)"
  by (auto simp: WriteFile_os_def next_write_def split: wfault.splits list.splits)

lemma WriteFile_not_Panic: "snd (WriteFile_os w p buf) \<noteq> Panic"
  by (auto simp: WriteFile_os_def split: prod.split wfault.split)

lemma next_read_files: "next_read w = (f, w1) \<Longrightarrow> files w1 = files w"
  by (auto simp: next_read_def split: list.splits)

lemma open_file_at:
  assumes "files w p = Some c" "next_read w = (f, w1)"
  shows "open_file w p = (case f of
      RdOk \<Rightarrow> (w1, Ok (Some (length c), c, None))
    | RdOpenErr \<Rightarrow> (w1, Err (ErrForeign 12))
    | RdStatErr \<Rightarrow> (w1, Ok (None, c, None))
    | RdReadErr k \<Rightarrow> (w1, Ok (Some (length c), take k c, Some (ErrForeign 13)))
    | RdGrow x \<Rightarrow> (w1\<lparr>files := (files w)(p \<mapsto> c @ x)\<rparr>, Ok (Some (length c), c @ x, None)))"
  using assms by (simp add: open_file_def next_read_files split: rfault.split)

lemma open_file_quiet:
  "quiet w \<Longrightarrow> open_file w p =
     (w, case files w p of None \<Rightarrow> Err ErrNotExist | Some c \<Rightarrow> Ok (Some (length c), c, None))"
  by (auto simp: open_file_def next_read_def quiet_def split: option.split)

end
