(* ===== verification/Var_Store.thy ===== *)
theory Var_Store
  imports Store_Interface Go_Os
begin

text \<open>
  The store of uefi.go: opening a file (\<open>OpenLimits\<close>, \<open>readStoreFile\<close>, \<open>detectFvWrap\<close>), the
  in-memory variable list (\<open>Get\<close>, \<open>List\<close>) and the operations that rewrite the file (\<open>Set\<close>,
  \<open>Delete\<close>, \<open>flush\<close>). A method on \<open>*store\<close> takes the system and the store and returns both
  with its result. The limits of \<open>OpenLimits\<close> are signed 64-bit values: \<open>max + 1\<close> wraps.
\<close>

record Limits =
  MaxFileSize :: u64
  MaxVariables :: u64

definition DefaultMaxFileSize :: u64 where "DefaultMaxFileSize = push_bit 20 256"
definition DefaultMaxVariables :: u64 where "DefaultMaxVariables = push_bit 16 1"

record store =
  path :: string
  lim :: Limits
  vars :: "Variable list"
  fvWrapped :: bool
  authVars :: bool
  storeOff :: u32
  storeSize :: u32

definition resolve :: "Limits \<Rightarrow> Limits" where
  "resolve l =
     (let l1 = (if MaxFileSize l = 0 then l\<lparr>MaxFileSize := DefaultMaxFileSize\<rparr> else l)
      in if MaxVariables l1 = 0 then l1\<lparr>MaxVariables := DefaultMaxVariables\<rparr> else l1)"

text \<open>
  The body of \<open>readStoreFile\<close>, with the number of bytes that it takes in from the file besides
  its result.
\<close>

definition readStoreFile_run :: "os \<Rightarrow> string \<Rightarrow> u64 \<Rightarrow> os \<times> nat \<times> bytes res" where
  "readStoreFile_run w p mx =
     (case open_file w p of
        (w', Panic) \<Rightarrow> (w', 0, Panic)
      | (w', Err e) \<Rightarrow> (w', 0, Err e)
      | (w', Ok (st, rd)) \<Rightarrow>
          if (case st of None \<Rightarrow> False | Some n \<Rightarrow> int n > sint mx)
          then (w', 0, Err (Wrap ''store file is %d bytes, more than %d: %w'' ErrTooLarge))
          else
            (case limit_read rd (sint (mx + 1)) of (data, err) \<Rightarrow>
             (w', length data,
              case err of
                Some e \<Rightarrow> Err e
              | None \<Rightarrow>
                  if int (length data) > sint mx
                  then Err (Wrap ''store file is more than %d bytes: %w'' ErrTooLarge)
                  else Ok data)))"

definition readStoreFile :: "os \<Rightarrow> string \<Rightarrow> u64 \<Rightarrow> os \<times> bytes res" where
  "readStoreFile w p mx = (case readStoreFile_run w p mx of (w', n, r) \<Rightarrow> (w', r))"

definition detectFvWrap :: "bytes \<Rightarrow> bool res" where
  "detectFvWrap data =
     (if length data < FvHeaderSize then Ok False
      else
        bindR (slice data 16 32) (\<lambda>g.
        if copy16 g \<noteq> EFISystemNvDataFvGUID then Ok False
        else bindR (bindR (slice data 40 44) Uint32) (\<lambda>s. Ok (s = fvSignature))))"

definition store_flavor :: "GUID \<Rightarrow> bool res" where
  "store_flavor sig =
     (if sig = EFIAuthenticatedVariableGUID then Ok True
      else if sig = EFIVariableGUID then Ok False
      else Err (Leaf ''uefi: parse: unrecognised store signature GUID''))"

text \<open>The part of \<open>OpenLimits\<close> after the file has been read.\<close>

definition open_image :: "'g safeio \<Rightarrow> string \<Rightarrow> Limits \<Rightarrow> bytes \<Rightarrow> store res" where
  "open_image sio p l data =
     bindR (detectFvWrap data) (\<lambda>fv.
     let off = (if fv then of_nat FvHeaderSize else 0) in
     if unat off + StoreHeaderSize > length data
     then Err (Leaf ''uefi: parse: file too small for store header'')
     else
       bindR (slice data (unat off) (unat (off + 16))) (\<lambda>sig.
       bindR (store_flavor (copy16 sig)) (\<lambda>auth.
       bindR (index data (unat (off + 20))) (\<lambda>fmt.
       if fmt \<noteq> StoreFormatted then Err (Leaf ''uefi: parse: store not formatted'')
       else
         bindR (index data (unat (off + 21))) (\<lambda>health.
         if health \<noteq> StoreHealthy then Err (Leaf ''uefi: parse: store not healthy'')
         else
           bindR (bindR (slice data (unat (off + 16)) (unat (off + 20))) Uint32) (\<lambda>sz.
           let avail = int (length data) - uint off;
               sz' = (if uint sz > avail then word_of_int avail else sz) in
           bindR (wrap_err ''uefi: parse: %w'' (parseVariables sio data off sz' auth (sint (MaxVariables l))))
             (\<lambda>vs. Ok \<lparr> path = p, lim = l, vars = vs, fvWrapped = fv, authVars = auth,
                        storeOff = off, storeSize = sz' \<rparr>)))))))"

definition OpenLimits :: "'g safeio \<Rightarrow> os \<Rightarrow> string \<Rightarrow> Limits \<Rightarrow> os \<times> store res" where
  "OpenLimits sio w p l =
     (let l' = resolve l in
      case readStoreFile w p (MaxFileSize l') of (w', r) \<Rightarrow>
        (w', bindR (wrap_err ''uefi: read file: %w'' r) (open_image sio p l')))"

definition Open :: "'g safeio \<Rightarrow> os \<Rightarrow> string \<Rightarrow> os \<times> store res" where
  "Open sio w p = OpenLimits sio w p \<lparr> MaxFileSize = 0, MaxVariables = 0 \<rparr>"

subsection \<open>Operations\<close>

definition Close :: "store \<Rightarrow> unit res" where
  "Close s = Ok ()"

definition List_vars :: "store \<Rightarrow> Variable list" where
  "List_vars s = vars s"

definition errNoVariable :: "string \<Rightarrow> go_error" where
  "errNoVariable name = Wrap ''uefi: variable %q not found: %w'' ErrNotExist"

definition same_var :: "string \<Rightarrow> GUID \<Rightarrow> Variable \<Rightarrow> bool" where
  "same_var name guid v \<longleftrightarrow> vName v = name \<and> vGUID v = guid"

fun get_loop :: "Variable list \<Rightarrow> string \<Rightarrow> GUID \<Rightarrow> Variable res" where
  "get_loop [] name guid = Err (errNoVariable name)"
| "get_loop (v # vs) name guid = (if same_var name guid v then Ok v else get_loop vs name guid)"

definition Get :: "store \<Rightarrow> string \<Rightarrow> GUID \<Rightarrow> Variable res" where
  "Get s name guid = get_loop (vars s) name guid"

definition flush :: "os \<Rightarrow> store \<Rightarrow> Variable list \<Rightarrow> os \<times> store \<times> unit res" where
  "flush w s vs =
     (case readStoreFile w (path s) (MaxFileSize (lim s)) of (w1, r) \<Rightarrow>
      (case wrap_err ''uefi: read original: %w'' r of
         Panic \<Rightarrow> (w1, s, Panic)
       | Err e \<Rightarrow> (w1, s, Err e)
       | Ok orig \<Rightarrow>
           if length orig < unat (storeOff s) + StoreHeaderSize
           then (w1, s, Err (Leaf ''uefi: file too small''))
           else
             (case buildStore orig (storeOff s) (storeSize s) (serializeVars vs (authVars s)) of
                Panic \<Rightarrow> (w1, s, Panic)
              | Err e \<Rightarrow> (w1, s, Err e)
              | Ok buf \<Rightarrow>
                  (case WriteFile_os w1 (path s) buf of (w2, r2) \<Rightarrow> (w2, s\<lparr>vars := vs\<rparr>, r2)))))"

fun without_var :: "Variable list \<Rightarrow> string \<Rightarrow> GUID \<Rightarrow> bool \<times> Variable list" where
  "without_var [] name guid = (False, [])"
| "without_var (v # vs) name guid =
     (case without_var vs name guid of (found, newVars) \<Rightarrow>
      if same_var name guid v then (True, newVars) else (found, v # newVars))"

definition Set_var :: "os \<Rightarrow> store \<Rightarrow> Variable \<Rightarrow> os \<times> store \<times> unit res" where
  "Set_var w s v =
     (let newVars = snd (without_var (vars s) (vName v) (vGUID v)) in flush w s (newVars @ [v]))"

definition Delete :: "os \<Rightarrow> store \<Rightarrow> string \<Rightarrow> GUID \<Rightarrow> os \<times> store \<times> unit res" where
  "Delete w s name guid =
     (case without_var (vars s) name guid of (found, newVars) \<Rightarrow>
      if \<not> found then (w, s, Err (errNoVariable name)) else flush w s newVars)"

subsection \<open>Reading the file\<close>


lemma sint_plus_one: "sint mx < 2 ^ 63 - 1 \<Longrightarrow> sint (mx + 1) = sint mx + 1" for mx :: u64
proof -
  assume small: "sint mx < 2 ^ 63 - 1"
  have "sint (mx + 1) = signed_take_bit 63 (sint mx + 1)"
    by (simp add: sint_word_ariths)
  also have "\<dots> = sint mx + 1"
    using small sint_greater_eq [of mx] by (intro signed_take_bit_int_eq_self) simp_all
  finally show ?thesis .
qed

lemmas readStoreFile_defs = readStoreFile_def readStoreFile_run_def

lemma readStoreFile_bound: "readStoreFile w p mx = (w', Ok data) \<Longrightarrow> int (length data) \<le> sint mx"
  by (auto simp: readStoreFile_defs split: prod.splits res.splits option.splits if_splits)

lemma open_file_not_Panic: "open_file w p \<noteq> (w', Panic)"
  by (auto simp: open_file_def split: prod.splits option.splits rfault.splits)

lemma readStoreFile_not_Panic: "snd (readStoreFile w p mx) \<noteq> Panic"
  by (auto simp: readStoreFile_defs open_file_not_Panic split: prod.splits option.splits res.splits if_splits)

text \<open>What the read of an opened file takes in and returns, below the limit where \<open>max + 1\<close> wraps.\<close>

lemma readStoreFile_run_read:
  assumes "sint mx < 2 ^ 63 - 1" "open_file w p = (w', Ok (st, bs, e))"
  shows "readStoreFile_run w p mx =
    (if \<exists>n. st = Some n \<and> int n > sint mx
     then (w', 0, Err (Wrap ''store file is %d bytes, more than %d: %w'' ErrTooLarge))
     else if int (length bs) > sint mx
     then (w', nat (sint mx + 1), Err (Wrap ''store file is more than %d bytes: %w'' ErrTooLarge))
     else (w', length bs, case e of Some x \<Rightarrow> Err x | None \<Rightarrow> Ok bs))"
  using sint_plus_one [OF assms(1)]
  by (cases st) (auto simp: readStoreFile_run_def assms(2) limit_read_def)

lemma readStoreFile_quiet:
  assumes "quiet w" "files w p = Some c" "int (length c) \<le> sint mx" "sint mx < 2 ^ 63 - 1"
  shows "readStoreFile w p mx = (w, Ok c)"
  using assms by (simp add: readStoreFile_def readStoreFile_run_read open_file_quiet)

lemma readStoreFile_quiet_files: "quiet w \<Longrightarrow> fst (readStoreFile w p mx) = w"
  by (simp add: readStoreFile_defs open_file_quiet split: prod.split option.split)

subsection \<open>What opening depends on\<close>

lemma slice_prefix: "take n b = take n d \<Longrightarrow> length b = length d \<Longrightarrow> j \<le> n \<Longrightarrow> slice b i j = slice d i j"
proof -
  assume t: "take n b = take n d" and l: "length b = length d" and j: "j \<le> n"
  have e: "take (j - i) (drop i x) = drop i (take j (take n x))" for x :: bytes
    using j by (simp add: drop_take min_def)
  have "take (j - i) (drop i b) = take (j - i) (drop i d)"
    by (simp only: e [of b] e [of d] t)
  then show ?thesis
    using l by (simp add: slice_def)
qed

lemma index_prefix: "take n b = take n d \<Longrightarrow> length b = length d \<Longrightarrow> i < n \<Longrightarrow> index b i = index d i"
  unfolding index_def by (metis nth_take)

lemma detectFvWrap_Ok: "\<exists>fv. detectFvWrap data = Ok fv"
  by (auto simp: detectFvWrap_def slice_Ok Uint32_def nv_consts)

definition header_off :: "bool \<Rightarrow> nat" where
  "header_off fv = (if fv then FvHeaderSize else 0)"

lemma unat_header_off:
  "unat (if fv then of_nat FvHeaderSize else 0 :: u32) = header_off fv"
  "unat ((if fv then of_nat FvHeaderSize else 0 :: u32) + 16) = header_off fv + 16"
  "unat ((if fv then of_nat FvHeaderSize else 0 :: u32) + 20) = header_off fv + 20"
  "unat ((if fv then of_nat FvHeaderSize else 0 :: u32) + 21) = header_off fv + 21"
  by (simp_all add: header_off_def FvHeaderSize_def)

lemma header_off_bounds: "header_off fv \<le> 72" "header_off fv mod 4 = 0"
  by (simp_all add: header_off_def FvHeaderSize_def)

definition clamped :: "int \<Rightarrow> u32 \<Rightarrow> u32" where
  "clamped avail sz = (if uint sz > avail then word_of_int avail else sz)"

lemma clamped_bound: "n < 2 ^ 32 \<Longrightarrow> unat (clamped (int n) sz) \<le> n"
proof (cases "uint sz > int n")
  case True
  moreover assume "n < 2 ^ 32"
  ultimately show ?thesis
    by (simp add: clamped_def unat_of_nat_u32)
next
  case False
  then have "unat sz \<le> n"
    using uint_nat [of sz] by linarith
  with False show ?thesis
    by (simp add: clamped_def)
qed

text \<open>Everything \<open>open_image\<close> decides before it walks the records.\<close>

definition open_header :: "string \<Rightarrow> Limits \<Rightarrow> bytes \<Rightarrow> store res" where
  "open_header p l data =
     bindR (detectFvWrap data) (\<lambda>fv.
     if header_off fv + StoreHeaderSize > length data
     then Err (Leaf ''uefi: parse: file too small for store header'')
     else
       bindR (slice data (header_off fv) (header_off fv + 16)) (\<lambda>sig.
       bindR (store_flavor (copy16 sig)) (\<lambda>auth.
       bindR (index data (header_off fv + 20)) (\<lambda>fmt.
       if fmt \<noteq> StoreFormatted then Err (Leaf ''uefi: parse: store not formatted'')
       else
         bindR (index data (header_off fv + 21)) (\<lambda>health.
         if health \<noteq> StoreHealthy then Err (Leaf ''uefi: parse: store not healthy'')
         else
           bindR (bindR (slice data (header_off fv + 16) (header_off fv + 20)) Uint32) (\<lambda>sz.
           Ok \<lparr> path = p, lim = l, vars = [], fvWrapped = fv, authVars = auth,
                storeOff = of_nat (header_off fv),
                storeSize = clamped (int (length data) - int (header_off fv)) sz \<rparr>))))))"

lemma open_image_header:
  "open_image sio p l data =
     bindR (open_header p l data) (\<lambda>s.
     bindR (wrap_err ''uefi: parse: %w''
       (parseVariables sio data (storeOff s) (storeSize s) (authVars s) (sint (MaxVariables l))))
     (\<lambda>vs. Ok (s\<lparr>vars := vs\<rparr>)))"
proof -
  have w: "(if fv then of_nat FvHeaderSize else 0 :: u32) = of_nat (header_off fv)" for fv
    by (simp add: header_off_def)
  have u: "uint (of_nat (header_off fv) :: u32) = int (header_off fv)" for fv
    by (simp add: header_off_def FvHeaderSize_def)
  show ?thesis
    unfolding open_image_def open_header_def clamped_def Let_def unat_header_off unfolding w u
    by (cases "detectFvWrap data"; simp add: bindR_assoc if_distrib [where f = "\<lambda>x. bindR x _"] cong: if_cong)
qed

lemma open_header_not_Panic: "open_header p l data \<noteq> Panic"
proof -
  obtain fv where fv: "detectFvWrap data = Ok fv"
    using detectFvWrap_Ok by blast
  show ?thesis
    by (auto simp: open_header_def fv bindR_Panic_iff slice_def index_def store_flavor_def Uint32_def
        StoreHeaderSize_def split: if_splits)
qed

text \<open>An opened header: where the store lies, and that it fits into the file.\<close>

lemma open_header_Ok:
  assumes "open_header p l data = Ok s"
  shows "detectFvWrap data = Ok (fvWrapped s)" "header_off (fvWrapped s) + StoreHeaderSize \<le> length data"
    "storeOff s = of_nat (header_off (fvWrapped s))" "unat (storeOff s) = header_off (fvWrapped s)"
    "path s = p" "lim s = l" "vars s = []"
    "data ! (header_off (fvWrapped s) + 20) = StoreFormatted"
    "length data < 2 ^ 32 \<Longrightarrow> unat (storeOff s) + unat (storeSize s) \<le> length data"
proof -
  obtain fv where fv: "detectFvWrap data = Ok fv"
    using detectFvWrap_Ok by blast
  note a = assms [unfolded open_header_def fv bindR.simps]
  show f: "detectFvWrap data = Ok (fvWrapped s)"
    using a fv by (auto simp: bindR_Ok_iff split: if_splits)
  then show h: "header_off (fvWrapped s) + StoreHeaderSize \<le> length data"
    using a fv by (auto simp: bindR_Ok_iff split: if_splits)
  show "storeOff s = of_nat (header_off (fvWrapped s))" "path s = p" "lim s = l" "vars s = []"
    using a by (auto simp: bindR_Ok_iff split: if_splits)
  then show u: "unat (storeOff s) = header_off (fvWrapped s)"
    by (simp add: header_off_def FvHeaderSize_def)
  show "data ! (header_off (fvWrapped s) + 20) = StoreFormatted"
    using a f fv by (auto simp: bindR_Ok_iff index_def split: if_splits)
  show "unat (storeOff s) + unat (storeSize s) \<le> length data" if "length data < 2 ^ 32"
  proof -
    obtain sz where sz: "storeSize s = clamped (int (length data) - int (header_off fv)) sz"
      using a by (auto simp: bindR_Ok_iff split: if_splits)
    have "int (length data) - int (header_off fv) = int (length data - header_off fv)"
      using h f fv by simp
    then have "unat (storeSize s) \<le> length data - header_off fv"
      unfolding sz using that by (simp only: clamped_bound less_imp_diff_less)
    then show ?thesis
      using h u f fv by simp
  qed
qed

lemma open_header_prefix:
  assumes "detectFvWrap b = detectFvWrap d" "detectFvWrap d = Ok fv" "length b = length d"
    and "take (header_off fv + StoreHeaderSize) b = take (header_off fv + StoreHeaderSize) d"
  shows "open_header p l b = open_header p l d"
  using assms(1-3) slice_prefix [OF assms(4,3)] index_prefix [OF assms(4,3)]
  by (simp add: open_header_def StoreHeaderSize_def cong: if_cong)

text \<open>
  Rewriting the record region cannot change what the file is taken for: a firmware-volume
  header lies before it, and a raw store has its format byte where the volume's GUID
  would have another byte.
\<close>

lemma detectFvWrap_raw:
  assumes "data ! 20 = StoreFormatted"
  shows "detectFvWrap data = Ok False"
proof -
  have "copy16 (take 16 (drop 16 data)) \<noteq> EFISystemNvDataFvGUID" if "32 \<le> length data"
  proof
    assume "copy16 (take 16 (drop 16 data)) = EFISystemNvDataFvGUID"
    then have "bytes_of16 (copy16 (take 16 (drop 16 data))) ! 4 = 0x96"
      by (simp add: EFISystemNvDataFvGUID_def)
    then show False
      using assms that by (simp add: bytes_of16_copy16 StoreFormatted_def)
  qed
  then show ?thesis
    by (simp add: detectFvWrap_def slice_Ok FvHeaderSize_def)
qed

lemma detectFvWrap_prefix:
  "take 72 b = take 72 d \<Longrightarrow> length b = length d \<Longrightarrow> detectFvWrap b = detectFvWrap d"
  using slice_prefix [of 72 b d] by (simp add: detectFvWrap_def cong: if_cong)

lemma detectFvWrap_rebuilt:
  assumes "open_header p l d = Ok s" "length b = length d"
    and "take (header_off (fvWrapped s) + StoreHeaderSize) b = take (header_off (fvWrapped s) + StoreHeaderSize) d"
  shows "detectFvWrap b = detectFvWrap d"
proof (cases "fvWrapped s")
  case True
  then have "take 100 b = take 100 d"
    using assms(3) by (simp add: header_off_def FvHeaderSize_def StoreHeaderSize_def)
  from arg_cong [OF this, of "take 72"] have "take 72 b = take 72 d"
    by simp
  then show ?thesis
    using assms(2) by (rule detectFvWrap_prefix)
next
  case False
  then have "d ! 20 = StoreFormatted" "take 28 b = take 28 d"
    using open_header_Ok(8) [OF assms(1)] assms(3) by (simp_all add: header_off_def StoreHeaderSize_def)
  then have "b ! 20 = StoreFormatted"
    using nth_take [of 20 28 b] nth_take [of 20 28 d] by simp
  then show ?thesis
    using \<open>d ! 20 = StoreFormatted\<close> by (simp add: detectFvWrap_raw)
qed

subsection \<open>The store as a \<open>VariableStore\<close>\<close>

lemma without_var_eq:
  "without_var vs n g = ((\<exists>v \<in> set vs. same_var n g v), filter (\<lambda>v. \<not> same_var n g v) vs)"
  by (induction vs) auto

lemma get_loop_eq:
  "get_loop vs n g = (case find (same_var n g) vs of Some v \<Rightarrow> Ok v | None \<Rightarrow> Err (errNoVariable n))"
  by (induction vs) auto

lemma get_loop_Ok: "get_loop vs n g = Ok v \<Longrightarrow> v \<in> set vs \<and> same_var n g v"
  by (induction vs) (auto split: if_splits)

lemma get_loop_Err: "get_loop vs n g = Err e \<longleftrightarrow> e = errNoVariable n \<and> (\<forall>v \<in> set vs. \<not> same_var n g v)"
  by (induction vs) auto

lemma get_loop_not_Panic [simp]: "get_loop vs n g \<noteq> Panic"
  by (induction vs) auto

lemma get_loop_filter:
  "get_loop (filter (\<lambda>v. \<not> same_var n g v) vs) n' g' =
     (if n' = n \<and> g' = g then Err (errNoVariable n) else get_loop vs n' g')"
  by (induction vs) (auto simp: same_var_def)

lemma get_loop_set:
  "get_loop (filter (\<lambda>e. \<not> same_var (vName v) (vGUID v) e) vs @ [v]) n g =
     (if n = vName v \<and> g = vGUID v then Ok v else get_loop vs n g)"
  by (induction vs) (auto simp: same_var_def)

lemma flush_Ok_vars: "flush w s vs = (w', s', Ok ()) \<Longrightarrow> s' = s\<lparr>vars := vs\<rparr>"
  by (auto simp: flush_def split: prod.splits res.splits if_splits)

definition nv_store :: "(os \<times> store) VariableStore" where
  "nv_store =
     \<lparr> vsClose = (\<lambda>(w, s). Close s),
       vsList = (\<lambda>(w, s). List_vars s),
       vsGet = (\<lambda>(w, s). Get s),
       vsSet = (\<lambda>(w, s) v. case Set_var w s v of (w', s', r) \<Rightarrow> ((w', s'), r)),
       vsDelete = (\<lambda>(w, s) n g. case Delete w s n g of (w', s', r) \<Rightarrow> ((w', s'), r)) \<rparr>"

lemma nv_store_sel [simp]:
  "vsList nv_store (w, s) = vars s" "vsGet nv_store (w, s) n g = get_loop (vars s) n g"
  "vsSet nv_store (w, s) v = (case Set_var w s v of (w', s', r) \<Rightarrow> ((w', s'), r))"
  "vsDelete nv_store (w, s) n g = (case Delete w s n g of (w', s', r) \<Rightarrow> ((w', s'), r))"
  by (simp_all add: nv_store_def List_vars_def Get_def)

lemma Set_var_Ok_vars:
  "Set_var w s v = (w', s', Ok ()) \<Longrightarrow>
   s' = s\<lparr>vars := filter (\<lambda>e. \<not> same_var (vName v) (vGUID v) e) (vars s) @ [v]\<rparr>"
  by (auto simp: Set_var_def Let_def without_var_eq dest: flush_Ok_vars)

lemma Delete_Ok_vars:
  "Delete w s n g = (w', s', Ok ()) \<Longrightarrow>
   (\<exists>v \<in> set (vars s). same_var n g v) \<and> s' = s\<lparr>vars := filter (\<lambda>e. \<not> same_var n g e) (vars s)\<rparr>"
  by (auto simp: Delete_def without_var_eq dest: flush_Ok_vars split: if_splits)

interpretation nv: variable_store nv_store
proof (unfold_locales, goal_cases)
  case (1 st n g)
  then show ?case by (cases st) simp
next
  case (2 st n g e)
  then show ?case by (cases st) (simp add: get_loop_Err errNoVariable_def)
next
  case (3 st n g v)
  then show ?case by (cases st) (auto simp: same_var_def dest: get_loop_Ok)
next
  case (4 st n g v)
  then show ?case by (cases st) (auto dest: get_loop_Ok)
next
  case (5 v st)
  then show ?case
    by (cases st; cases "get_loop (vars (snd st)) (vName v) (vGUID v)")
      (auto simp: get_loop_Err same_var_def)
next
  case (6 st v st' n g)
  obtain w s w' s' where st: "st = (w, s)" "st' = (w', s')"
    by (cases st, cases st')
  with 6 have "Set_var w s v = (w', s', Ok ())"
    by (auto split: prod.splits)
  from Set_var_Ok_vars [OF this] show ?case
    by (simp add: st vs_lookup_def get_loop_set)
next
  case (7 st n g st' n' g')
  obtain w s w' s' where st: "st = (w, s)" "st' = (w', s')"
    by (cases st, cases st')
  with 7 have "Delete w s n g = (w', s', Ok ())"
    by (auto split: prod.splits)
  from Delete_Ok_vars [OF this] show ?case
    by (simp add: st vs_lookup_def get_loop_filter)
next
  case (8 st n g)
  then show ?case
    by (cases st; cases "get_loop (vars (snd st)) n g")
      (auto simp: vs_lookup_def get_loop_Err Delete_def without_var_eq errNoVariable_def)
qed

lemma Set_var_vars:
  "Set_var w s v = (w', s', r) \<Longrightarrow>
   vars s' = vars s \<or> vars s' = filter (\<lambda>e. \<not> same_var (vName v) (vGUID v) e) (vars s) @ [v]"
  by (auto simp: Set_var_def Let_def without_var_eq flush_def split: prod.splits res.splits if_splits)

interpretation nvf: framed_store nv_store
proof unfold_locales
  fix st st' :: "os \<times> store" and v r n g
  assume a: "vsSet nv_store st v = (st', r)" "n \<noteq> vName v \<or> g \<noteq> vGUID v"
  obtain w s w' s' where st: "st = (w, s)" "st' = (w', s')"
    by (cases st, cases st')
  with a(1) have "Set_var w s v = (w', s', r)"
    by (auto split: prod.splits)
  from Set_var_vars [OF this] a(2) show "vs_lookup nv_store st' n g = vs_lookup nv_store st n g"
    by (auto simp: st vs_lookup_def get_loop_set)
qed

subsection \<open>The file and the store agree\<close>

lemma walk_valid: "\<forall>v \<in> set (walk data e a o'). valid_utf8 (vName v)"
proof (induction data e a o' rule: walk.induct)
  case (1 data e a o')
  have "valid_utf8 (vName v)" if "record_value data o' a = Some v" for v
    using that by (auto simp: record_value_def record_var_def DecodeUTF16LE_valid split: if_splits res.splits)
  with 1 show ?case
    by (subst walk.simps) (auto split: option.splits)
qed

lemma open_image_Ok:
  assumes "open_image sio p l data = Ok s"
  shows "open_header p l data = Ok (s\<lparr>vars := []\<rparr>)"
    "parseVariables sio data (storeOff s) (storeSize s) (authVars s) (sint (MaxVariables l)) = Ok (vars s)"
proof -
  obtain s0 vs where h: "open_header p l data = Ok s0"
    and v: "wrap_err ''uefi: parse: %w''
      (parseVariables sio data (storeOff s0) (storeSize s0) (authVars s0) (sint (MaxVariables l))) = Ok vs"
    and s: "s = s0\<lparr>vars := vs\<rparr>"
    using assms by (auto simp: open_image_header bindR_Ok_iff)
  from open_header_Ok(7) [OF h] h s show "open_header p l data = Ok (s\<lparr>vars := []\<rparr>)"
    by simp
  from v s show "parseVariables sio data (storeOff s) (storeSize s) (authVars s) (sint (MaxVariables l)) = Ok (vars s)"
    by (auto simp: wrap_err_def split: res.splits)
qed

lemma open_image_layout:
  assumes "open_image sio p l data = Ok s"
  shows "path s = p" "lim s = l" "unat (storeOff s) = header_off (fvWrapped s)"
    "header_off (fvWrapped s) + StoreHeaderSize \<le> length data"
  using open_header_Ok [OF open_image_Ok(1) [OF assms]] by simp_all

lemma open_image_names:
  assumes spec: "safeio_spec sio" and len: "length data + 64 \<le> 2 ^ 32"
    and op: "open_image sio p l data = Ok s"
  shows "\<forall>v \<in> set (vars s). valid_utf8 (vName v)"
proof -
  have off: "unat (storeOff s) + 92 \<le> 2 ^ 32"
    using open_image_layout(3) [OF op] header_off_bounds(1) [of "fvWrapped s"] by simp
  have "vars s = walk data (min (unat (storeOff s) + unat (storeSize s)) (length data)) (authVars s)
      (unat (storeOff s) + StoreHeaderSize)"
    using open_image_Ok(2) [OF op]
    by (auto simp: parseVariables_eq_walk [OF spec len off] limited_def split: if_splits)
  then show ?thesis
    using walk_valid by metis
qed

lemma open_image_rebuilt:
  assumes spec: "safeio_spec sio" and len: "length img + 64 \<le> 2 ^ 32"
    and op: "open_image sio p l img = Ok s"
    and build: "buildStore img (storeOff s) (storeSize s) (serializeVars vs (authVars s)) = Ok buf"
  shows "open_image sio p l buf =
      bindR (wrap_err ''uefi: parse: %w'' (limited (sint (MaxVariables l)) [] (map stored_var vs)))
        (\<lambda>vs. Ok (s\<lparr>vars := vs\<rparr>))"
    "length buf = length img"
proof -
  note h = open_image_Ok(1) [OF op]
  note u = open_image_layout(3) [OF op]
  let ?h = "unat (storeOff s) + StoreHeaderSize"
  let ?e = "unat (storeOff s) + unat (storeSize s)"
  let ?p = "serializeVars vs (authVars s)"
  have b: "?e \<le> length img" "?h + length ?p \<le> ?e"
    and buf: "buf = take ?h img @ ?p @ replicate (?e - ?h - length ?p) 0xFF @ drop ?e img"
    using build by (auto simp: buildStore_eq Let_def split: if_splits)
  show lb: "length buf = length img"
    using b buf by simp
  have tk: "take (header_off (fvWrapped s) + StoreHeaderSize) buf = take (header_off (fvWrapped s) + StoreHeaderSize) img"
    using b buf u by simp
  have fv: "detectFvWrap buf = detectFvWrap img"
    using detectFvWrap_rebuilt [OF h lb] tk by simp
  have "open_header p l buf = open_header p l img"
    using open_header_prefix [OF fv _ lb, of "fvWrapped s"] open_header_Ok(1) [OF h] tk by simp
  moreover have "unat (storeOff s) mod 4 = 0"
    using u header_off_bounds(2) by simp
  note parse_rebuilt [OF spec len this build]
  ultimately show "open_image sio p l buf =
      bindR (wrap_err ''uefi: parse: %w'' (limited (sint (MaxVariables l)) [] (map stored_var vs)))
        (\<lambda>vs. Ok (s\<lparr>vars := vs\<rparr>))"
    using h by (simp add: open_image_header)
qed

text \<open>The invariant of an opened store: its file, as it is now, opens to this very store.\<close>

definition synced :: "'g safeio \<Rightarrow> os \<Rightarrow> store \<Rightarrow> bool" where
  "synced sio w s \<longleftrightarrow>
     (\<exists>img. files w (path s) = Some img \<and> int (length img) \<le> sint (MaxFileSize (lim s)) \<and>
        length img + 64 \<le> 2 ^ 32 \<and> sint (MaxFileSize (lim s)) < 2 ^ 63 - 1 \<and>
        open_image sio (path s) (lim s) img = Ok s)"

text \<open>A successful \<open>flush\<close> in a quiet system, and what its file opens to.\<close>

lemma flush_synced_Ok:
  assumes q: "quiet w" and syn: "synced sio w s" and fl: "flush w s vs = (w', s', Ok ())"
  obtains img buf where "files w (path s) = Some img" "open_image sio (path s) (lim s) img = Ok s"
    "buildStore img (storeOff s) (storeSize s) (serializeVars vs (authVars s)) = Ok buf"
    "w' = w\<lparr>files := (files w)(path s \<mapsto> buf)\<rparr>" "s' = s\<lparr>vars := vs\<rparr>"
    "int (length img) \<le> sint (MaxFileSize (lim s))" "length img + 64 \<le> 2 ^ 32"
    "sint (MaxFileSize (lim s)) < 2 ^ 63 - 1"
proof -
  obtain img where img: "files w (path s) = Some img" "int (length img) \<le> sint (MaxFileSize (lim s))"
      "length img + 64 \<le> 2 ^ 32" "sint (MaxFileSize (lim s)) < 2 ^ 63 - 1"
      "open_image sio (path s) (lim s) img = Ok s"
    using syn by (auto simp: synced_def)
  have rd: "readStoreFile w (path s) (MaxFileSize (lim s)) = (w, Ok img)"
    by (rule readStoreFile_quiet [OF q img(1,2,4)])
  obtain buf where "buildStore img (storeOff s) (storeSize s) (serializeVars vs (authVars s)) = Ok buf"
    "w' = w\<lparr>files := (files w)(path s \<mapsto> buf)\<rparr>" "s' = s\<lparr>vars := vs\<rparr>"
    using fl by (auto simp: flush_def rd wrap_err_def WriteFile_quiet [OF q] split: res.splits if_splits)
  with img that show ?thesis by metis
qed

lemma flush_reopen:
  assumes spec: "safeio_spec sio" and q: "quiet w" and syn: "synced sio w s"
    and fl: "flush w s vs = (w', s', Ok ())" and l: "resolve l = lim s"
  shows "OpenLimits sio w' (path s) l =
    (w', bindR (wrap_err ''uefi: parse: %w'' (limited (sint (MaxVariables (lim s))) [] (map stored_var vs)))
           (\<lambda>vs. Ok (s\<lparr>vars := vs\<rparr>)))"
proof -
  from flush_synced_Ok [OF q syn fl] obtain img buf where
    op: "open_image sio (path s) (lim s) img = Ok s"
    and build: "buildStore img (storeOff s) (storeSize s) (serializeVars vs (authVars s)) = Ok buf"
    and w': "w' = w\<lparr>files := (files w)(path s \<mapsto> buf)\<rparr>"
    and b: "int (length img) \<le> sint (MaxFileSize (lim s))" "length img + 64 \<le> 2 ^ 32"
      "sint (MaxFileSize (lim s)) < 2 ^ 63 - 1"
    by metis
  note r = open_image_rebuilt [OF spec b(2) op build]
  have "readStoreFile w' (path s) (MaxFileSize (lim s)) = (w', Ok buf)"
    using q b r(2) by (intro readStoreFile_quiet) (simp_all add: w')
  then show ?thesis
    by (simp add: OpenLimits_def l r(1))
qed

lemma synced_flush:
  assumes spec: "safeio_spec sio" and q: "quiet w" and syn: "synced sio w s"
    and names: "\<forall>v \<in> set vs. valid_utf8 (vName v)"
    and count: "int (length vs) \<le> sint (MaxVariables (lim s))"
    and fl: "flush w s vs = (w', s', Ok ())"
  shows "synced sio w' s'" "quiet w'"
proof -
  from flush_synced_Ok [OF q syn fl] obtain img buf where
    op: "open_image sio (path s) (lim s) img = Ok s"
    and build: "buildStore img (storeOff s) (storeSize s) (serializeVars vs (authVars s)) = Ok buf"
    and w': "w' = w\<lparr>files := (files w)(path s \<mapsto> buf)\<rparr>" and s': "s' = s\<lparr>vars := vs\<rparr>"
    and b: "int (length img) \<le> sint (MaxFileSize (lim s))" "length img + 64 \<le> 2 ^ 32"
      "sint (MaxFileSize (lim s)) < 2 ^ 63 - 1"
    by metis
  have "map stored_var vs = vs"
    using names by (intro map_idI) (simp add: stored_var_valid)
  then show "synced sio w' s'"
    using open_image_rebuilt [OF spec b(2) op build] b count
    by (simp add: synced_def w' s' limited_def wrap_err_def)
  show "quiet w'"
    using q by (simp add: w')
qed

lemma flush_quiet_Err:
  assumes "quiet w" "flush w s vs = (w', s', Err e)"
  shows "w' = w" "s' = s"
  using assms WriteFile_quiet readStoreFile_quiet_files [of w "path s" "MaxFileSize (lim s)"]
  by (auto simp: flush_def split: prod.splits res.splits if_splits)

lemma synced_names:
  "safeio_spec sio \<Longrightarrow> synced sio w s \<Longrightarrow> v \<in> set (vars s) \<Longrightarrow> valid_utf8 (vName v)"
  by (auto simp: synced_def dest: open_image_names)

lemma synced_open:
  assumes "quiet w" "synced sio w s" "resolve l = lim s"
  shows "OpenLimits sio w (path s) l = (w, Ok s)"
  using assms by (auto simp: synced_def OpenLimits_def readStoreFile_quiet wrap_err_def Let_def)

lemma open_synced:
  assumes q: "quiet w" and op: "OpenLimits sio w p l = (w', Ok s)"
    and len: "\<And>c. files w p = Some c \<Longrightarrow> length c + 64 \<le> 2 ^ 32"
    and mx: "sint (MaxFileSize (resolve l)) < 2 ^ 63 - 1"
  shows "w' = w" "synced sio w s" "path s = p" "lim s = resolve l"
proof -
  let ?m = "MaxFileSize (resolve l)"
  obtain r where rd: "readStoreFile w p ?m = (w, r)"
    using readStoreFile_quiet_files [OF q, of p ?m] by (cases "readStoreFile w p ?m") auto
  then show w': "w' = w"
    using op by (auto simp: OpenLimits_def Let_def)
  obtain data where r: "r = Ok data" and im: "open_image sio p (resolve l) data = Ok s"
    using op rd by (auto simp: OpenLimits_def Let_def bindR_Ok_iff wrap_err_def split: res.splits)
  obtain c where c: "files w p = Some c"
    using rd r by (cases "files w p") (auto simp: readStoreFile_defs open_file_quiet [OF q])
  have bound: "int (length c) \<le> sint ?m"
    using rd r c by (auto simp: readStoreFile_defs open_file_quiet [OF q] split: if_splits)
  have "data = c"
    using readStoreFile_quiet [OF q c bound mx] rd r by simp
  then show "synced sio w s" "path s = p" "lim s = resolve l"
    using im c bound len mx open_image_layout(1,2) [OF im] by (auto simp: synced_def)
qed

subsection \<open>Reading back a write\<close>

text \<open>Get after Set: after a Set that reported success, Get of that name and GUID
  returns the variable that was set, and Get of any other key what it returned before.\<close>

theorem Get_after_Set:
  assumes "Set_var w s v = (w', s', Ok ())"
  shows "Get s' n g = (if n = vName v \<and> g = vGUID v then Ok v else Get s n g)"
  using Set_var_Ok_vars [OF assms] by (simp add: Get_def get_loop_set)

text \<open>Property C29. Get after Delete: a Delete that reported success removed a variable that was
  there, the key is then missing with ErrNotExist, and every other key is as before.\<close>

theorem Get_after_Delete:
  assumes "Delete w s n g = (w', s', Ok ())"
  shows "(\<exists>v. Get s n g = Ok v) \<and> (\<exists>e. Get s' n g = Err e \<and> errors_Is e ErrNotExist) \<and>
    (\<forall>n' g'. n' \<noteq> n \<or> g' \<noteq> g \<longrightarrow> Get s' n' g' = Get s n' g')"
proof -
  note d = Delete_Ok_vars [OF assms]
  then have "\<exists>v. Get s n g = Ok v"
    using get_loop_Err [of "vars s" n g] by (cases "get_loop (vars s) n g") (auto simp: Get_def)
  with d show ?thesis
    by (auto simp: Get_def get_loop_filter errNoVariable_def)
qed

text \<open>Property C30. The size limit bounds what is read from an existing file, even a file that
  grows between the size check and the read, for any limit below math.MaxInt64. At most
  limit + 1 bytes are taken in. A file that Stat reports as over the limit is refused with
  ErrTooLarge unread. When the size is over the limit only at the read, because Stat failed or the
  file grew, exactly limit + 1 bytes are taken in and the file is refused with
  ErrTooLarge. The read succeeds exactly when neither opening nor reading fails and the file is
  within the limit at the time of the read, and it then returns the whole file.\<close>

theorem readStoreFile_bounded_intake:
  assumes "sint mx < 2 ^ 63 - 1" and "files w p = Some c" and "next_read w = (f, w1)"
    and "readStoreFile_run w p mx = (w', n, r)"
  shows "readStoreFile w p mx = (w', r) \<and> n \<le> nat (sint mx + 1) \<and>
    (f \<noteq> RdOpenErr \<and> f \<noteq> RdStatErr \<and> int (length c) > sint mx \<longrightarrow>
       n = 0 \<and> r = Err (Wrap ''store file is %d bytes, more than %d: %w'' ErrTooLarge)) \<and>
    (\<forall>d. (f = RdStatErr \<or> (\<exists>x. f = RdGrow x) \<and> int (length c) \<le> sint mx) \<and>
         files w' p = Some d \<and> int (length d) > sint mx \<longrightarrow>
       n = nat (sint mx + 1) \<and> r = Err (Wrap ''store file is more than %d bytes: %w'' ErrTooLarge)) \<and>
    (\<forall>d. r = Ok d \<longleftrightarrow> f \<noteq> RdOpenErr \<and> (\<forall>k. f \<noteq> RdReadErr k) \<and>
         files w' p = Some d \<and> int (length d) \<le> sint mx)"
proof -
  note op = open_file_at [OF assms(2,3)] next_read_files [OF assms(3)] and small = readStoreFile_run_read [OF assms(1)]
  have res: "readStoreFile w p mx = (w', r)"
    by (simp add: readStoreFile_def assms(4))
  show ?thesis
  proof (cases f)
    case RdOpenErr
    then show ?thesis
      using assms(4) op res by (auto simp: readStoreFile_run_def)
  next
    case (RdGrow x)
    then show ?thesis
      using assms(2,4) op res small [of w p "w1\<lparr>files := (files w)(p \<mapsto> c @ x)\<rparr>"] by (auto split: if_splits)
  qed (use assms(2,4) op res small [of w p w1] in \<open>auto split: if_splits\<close>)
qed

theorem readStoreFile_bounded_intake_witness:
  "readStoreFile_run \<lparr> files = [''f'' \<mapsto> [1]], rscript = [RdGrow [2, 3, 4, 5]], wscript = [] \<rparr> ''f'' 2 =
     (\<lparr> files = [''f'' \<mapsto> [1, 2, 3, 4, 5]], rscript = [], wscript = [] \<rparr>, 3,
      Err (Wrap ''store file is more than %d bytes: %w'' ErrTooLarge))"
proof -
  let ?w = "\<lparr> files = [''f'' \<mapsto> [1]], rscript = [RdGrow [2, 3, 4, 5]], wscript = [] \<rparr>"
  let ?w' = "\<lparr> files = [''f'' \<mapsto> [1, 2, 3, 4, 5]], rscript = [], wscript = [] \<rparr>"
  obtain n r where run: "readStoreFile_run ?w ''f'' 2 = (?w', n, r)"
    by (auto simp: readStoreFile_run_def open_file_def next_read_def limit_read_def)
  have "next_read ?w = (RdGrow [2, 3, 4, 5], ?w\<lparr>rscript := []\<rparr>)"
    by (simp add: next_read_def)
  from readStoreFile_bounded_intake [OF _ _ this run, of "[1]"] run show ?thesis
    by simp
qed

text \<open>
  The limit math.MaxInt64 is outside: max + 1 wraps to a negative number, the reader delivers
  nothing, and every file reads as empty.
\<close>

lemma readStoreFile_max_int64:
  assumes "sint mx = 2 ^ 63 - 1" "quiet w" "files w p = Some c" "int (length c) \<le> sint mx"
  shows "readStoreFile_run w p mx = (w, 0, Ok [])"
proof -
  have "mx = word_of_int (sint mx)"
    by simp
  then have "mx = 0x7FFFFFFFFFFFFFFF"
    unfolding assms(1) by simp
  then show ?thesis
    using assms by (simp add: readStoreFile_run_def open_file_quiet limit_read_def)
qed

end
