(* ===== verification/Format_Store.thy ===== *)
theory Format_Store
  imports Var_Store
begin

text \<open>
  Creating stores (format.go): the raw layout of \<open>Format\<close> and the firmware-volume layout of
  \<open>FormatOVMF\<close>. The images are built by the writes of the source, in its order, on a zeroed
  buffer. Sizes are \<open>int64\<close> values; the guards keep them below 256 MiB.
\<close>

text \<open>The sizes of the images that QEMU uses.\<close>

definition VarsSizeX86_64 :: int where "VarsSizeX86_64 = 512 * 1024"
definition VarsSizeARM64 :: int where "VarsSizeARM64 = 64 * 1024 * 1024"

definition makeEmptyStore :: "int \<Rightarrow> bytes res" where
  "makeEmptyStore sizeBytes =
     (if sizeBytes < 0 then Panic
      else
        let buf = make_bytes (nat sizeBytes) in
        bindR (fill buf StoreHeaderSize (length buf - StoreHeaderSize) 0xFF) (\<lambda>buf.
        bindR (copy_range buf 0 16 (bytes_of16 EFIVariableGUID)) (\<lambda>buf.
        bindR (put_bytes buf 16 (le32_bytes (word_of_int sizeBytes))) (\<lambda>buf.
        bindR (set_at buf 20 StoreFormatted) (\<lambda>buf.
        set_at buf 21 StoreHealthy)))))"

definition Format :: "'g safeio \<Rightarrow> os \<Rightarrow> string \<Rightarrow> int \<Rightarrow> os \<times> store res" where
  "Format sio w p sizeBytes =
     (if sizeBytes < int StoreHeaderSize + 4
      then (w, Err (Leaf ''uefi: Format: size %d is too small (minimum %d)''))
      else if sizeBytes > sint DefaultMaxFileSize
      then (w, Err (Wrap ''uefi: Format: size %d exceeds the %d-byte store ceiling: %w'' ErrTooLarge))
      else
        (case makeEmptyStore sizeBytes of
           Panic \<Rightarrow> (w, Panic)
         | Err e \<Rightarrow> (w, Err e)
         | Ok buf \<Rightarrow>
             (case WriteFile_os w p buf of
                (w', Ok _) \<Rightarrow> Open sio w' p
              | (w', Err e) \<Rightarrow> (w', Err (Wrap ''uefi: Format: write %s: %w'' e))
              | (w', Panic) \<Rightarrow> (w', Panic))))"

type_synonym OVMFFlavor = int

definition OVMFX86_64 :: OVMFFlavor where "OVMFX86_64 = 0"
definition OVMFAArch64 :: OVMFFlavor where "OVMFAArch64 = 1"
definition armVirtNvVarFvSize :: int where "armVirtNvVarFvSize = 0xC0000"
definition armVirtNvVarStoreSize :: int where "armVirtNvVarStoreSize = 0x40000"

text \<open>The layout-specific sizes: FvLength, store size, block length and number of blocks.\<close>

definition ovmf_layout :: "int \<Rightarrow> OVMFFlavor \<Rightarrow> int \<times> int \<times> u32 \<times> u32" where
  "ovmf_layout sizeBytes flavor =
     (if flavor = OVMFAArch64 then
        (armVirtNvVarFvSize, armVirtNvVarStoreSize - int FvHeaderSize,
         if sizeBytes mod 0x40000 = 0 then (0x40000, word_of_int (sizeBytes div 0x40000))
         else (word_of_int sizeBytes, 1))
      else
        (sizeBytes, sizeBytes - int FvHeaderSize,
         if sizeBytes mod 0x1000 = 0 then (0x1000, word_of_int (sizeBytes div 0x1000))
         else (word_of_int sizeBytes, 1)))"

text \<open>The checksum loop: \<open>n\<close> little-endian words from offset \<open>i\<close>, added modulo 65536.\<close>

fun sum16 :: "bytes \<Rightarrow> nat \<Rightarrow> nat \<Rightarrow> u16 \<Rightarrow> u16 res" where
  "sum16 b i 0 acc = Ok acc"
| "sum16 b i (Suc n) acc =
     bindR (bindR (slice_from b i) Uint16) (\<lambda>v. sum16 b (i + 2) n (acc + v))"

text \<open>The writes to the firmware-volume header, up to and including its checksum.\<close>

definition write_fv_header :: "bytes \<Rightarrow> int \<Rightarrow> u32 \<Rightarrow> u32 \<Rightarrow> bytes res" where
  "write_fv_header buf fvLength blockLen numBlocks =
     bindR (copy_range buf 0x10 0x20 (bytes_of16 EFISystemNvDataFvGUID)) (\<lambda>buf.
     bindR (put_bytes buf 0x20 (le64_bytes (word_of_int fvLength))) (\<lambda>buf.
     bindR (put_bytes buf 0x28 (le32_bytes fvSignature)) (\<lambda>buf.
     bindR (put_bytes buf 0x2c (le32_bytes 0x00000e36)) (\<lambda>buf.
     bindR (put_bytes buf 0x30 (le16_bytes 0x0048)) (\<lambda>buf.
     bindR (put_bytes buf 0x34 (le16_bytes 0x0000)) (\<lambda>buf.
     bindR (set_at buf 0x36 0x00) (\<lambda>buf.
     bindR (set_at buf 0x37 0x02) (\<lambda>buf.
     bindR (put_bytes buf 0x38 (le32_bytes numBlocks)) (\<lambda>buf.
     bindR (put_bytes buf 0x3c (le32_bytes blockLen)) (\<lambda>buf.
     bindR (sum16 buf 0 (FvHeaderSize div 2) 0) (\<lambda>sum.
     put_bytes buf 0x32 (le16_bytes (0 - sum)))))))))))))"

definition write_store_header :: "bytes \<Rightarrow> nat \<Rightarrow> u32 \<Rightarrow> bytes res" where
  "write_store_header buf off sz =
     bindR (copy_range buf off (off + 16) (bytes_of16 EFIAuthenticatedVariableGUID)) (\<lambda>buf.
     bindR (put_bytes buf (off + 16) (le32_bytes sz)) (\<lambda>buf.
     bindR (set_at buf (off + 20) StoreFormatted) (\<lambda>buf.
     set_at buf (off + 21) StoreHealthy)))"

definition makeEmptyOVMFStore :: "int \<Rightarrow> OVMFFlavor \<Rightarrow> bytes res" where
  "makeEmptyOVMFStore sizeBytes flavor =
     (if sizeBytes < 0 then Panic
      else
        let buf = make_bytes (nat sizeBytes) in
        case ovmf_layout sizeBytes flavor of (fvLength, stSize, blockLen, numBlocks) \<Rightarrow>
        let headerEnd = FvHeaderSize + StoreHeaderSize in
        bindR (fill buf headerEnd (length buf - headerEnd) 0xFF) (\<lambda>buf.
        bindR (write_fv_header buf fvLength blockLen numBlocks) (\<lambda>buf.
        write_store_header buf FvHeaderSize (word_of_int stSize))))"

definition FormatOVMF :: "'g safeio \<Rightarrow> os \<Rightarrow> string \<Rightarrow> int \<Rightarrow> OVMFFlavor \<Rightarrow> os \<times> store res" where
  "FormatOVMF sio w p sizeBytes flavor =
     (let minSize = (if flavor = OVMFAArch64 then armVirtNvVarFvSize
                     else int FvHeaderSize + int StoreHeaderSize + 4) in
      if sizeBytes < minSize
      then (w, Err (Leaf ''uefi: FormatOVMF: size %d is too small (minimum %d for flavor %d)''))
      else if sizeBytes > sint DefaultMaxFileSize
      then (w, Err (Wrap ''uefi: FormatOVMF: size %d exceeds the %d-byte store ceiling: %w'' ErrTooLarge))
      else
        (case makeEmptyOVMFStore sizeBytes flavor of
           Panic \<Rightarrow> (w, Panic)
         | Err e \<Rightarrow> (w, Err e)
         | Ok buf \<Rightarrow>
             (case WriteFile_os w p buf of
                (w', Ok _) \<Rightarrow> Open sio w' p
              | (w', Err e) \<Rightarrow> (w', Err (Wrap ''uefi: FormatOVMF: write %s: %w'' e))
              | (w', Panic) \<Rightarrow> (w', Panic))))"

subsection \<open>The images\<close>

lemmas put_simps = set_at_put copy_range_put put_bytes_def

lemma fill_erased:
  "h \<le> n \<Longrightarrow> fill (make_bytes n) h (n - h) 0xFF = Ok (make_bytes h @ replicate (n - h) 0xFF)"
  by (simp add: fill_Ok)

text \<open>The two headers that a formatted image starts with.\<close>

definition store_header :: "GUID \<Rightarrow> u32 \<Rightarrow> bytes" where
  "store_header sig sz = bytes_of16 sig @ le32_bytes sz @ [StoreFormatted, StoreHealthy] @ make_bytes 6"

lemma length_store_header [simp]: "length (store_header sig sz) = 28"
  by (simp add: store_header_def)

lemma makeEmptyStore_eq:
  assumes "StoreHeaderSize \<le> n"
  shows "makeEmptyStore (int n) = Ok (store_header EFIVariableGUID (of_nat n) @ replicate (n - 28) 0xFF)"
  using assms unfolding makeEmptyStore_def StoreHeaderSize_def
  by (simp add: fill_erased put_simps store_header_def)

definition fv_header :: "u64 \<Rightarrow> u16 \<Rightarrow> u32 \<Rightarrow> u32 \<Rightarrow> bytes" where
  "fv_header fvLength checksum numBlocks blockLen =
     make_bytes 16 @ bytes_of16 EFISystemNvDataFvGUID @ le64_bytes fvLength @ le32_bytes fvSignature @
     le32_bytes 0x00000e36 @ le16_bytes 0x0048 @ le16_bytes checksum @ le16_bytes 0x0000 @ [0x00, 0x02] @
     le32_bytes numBlocks @ le32_bytes blockLen @ make_bytes 8"

lemma length_fv_header [simp]: "length (fv_header l c n b) = 72"
  by (simp add: fv_header_def)

lemma sum16_eq:
  "i + 2 * n \<le> length b \<Longrightarrow> sum16 b i n acc = Ok (acc + (\<Sum>k<n. u16_at b (i + 2 * k)))"
proof (induction n arbitrary: i acc)
  case (Suc n)
  have "bindR (slice_from b i) Uint16 = Ok (u16_at b i)"
    using Suc.prems by (simp add: slice_from_Ok Uint16_def u16_at_def)
  then show ?case
    using Suc by (simp add: sum.lessThan_Suc_shift add.assoc del: sum.lessThan_Suc)
qed simp

lemma write_fv_header_eq:
  "write_fv_header (make_bytes 100 @ r) fvLength blockLen numBlocks =
     bindR (sum16 (fv_header (word_of_int fvLength) 0 numBlocks blockLen @ make_bytes 28 @ r) 0 36 0) (\<lambda>sum.
     Ok (fv_header (word_of_int fvLength) (0 - sum) numBlocks blockLen @ make_bytes 28 @ r))"
proof -
  have z: "make_bytes 36 = make_bytes 8 @ make_bytes 28" "make_bytes 2 = [0, 0]"
    by (simp_all add: numeral_2_eq_2 flip: replicate_add)
  show ?thesis
    by (simp add: write_fv_header_def put_simps FvHeaderSize_def fv_header_def le16_bytes_def z)
qed

lemma write_store_header_eq:
  "length h = 72 \<Longrightarrow> write_store_header (h @ make_bytes 28 @ r) 72 sz = Ok (h @ store_header EFIAuthenticatedVariableGUID sz @ r)"
  by (simp add: write_store_header_def put_simps store_header_def)

text \<open>The 16-bit words of a volume header, and what the checksum field adds to their sum.\<close>

definition fv_sum :: "bytes \<Rightarrow> u16" where
  "fv_sum h = (\<Sum>k<36. u16_at h (2 * k))"

lemma fv_sum_prefix: "72 \<le> length h \<Longrightarrow> fv_sum (h @ r) = fv_sum h"
  unfolding fv_sum_def by (intro sum.cong) (auto simp: u16_at_def nth_append)

lemma fv_header_split:
  obtains x y where "length x = 50" "\<And>c. fv_header l c n b = x @ le16_bytes c @ y"
proof
  let ?x = "make_bytes 16 @ bytes_of16 EFISystemNvDataFvGUID @ le64_bytes l @ le32_bytes fvSignature @
     le32_bytes 0x00000e36 @ le16_bytes 0x0048"
  let ?y = "le16_bytes 0x0000 @ [0x00, 0x02] @ le32_bytes n @ le32_bytes b @ make_bytes 8"
  show "length ?x = 50" by simp
  show "fv_header l c n b = ?x @ le16_bytes c @ ?y" for c
    by (simp add: fv_header_def)
qed

lemma fv_header_word:
  "u16_at (fv_header l c n b) (2 * k) = u16_at (fv_header l 0 n b) (2 * k) + (if k = 25 then c else 0)"
proof -
  obtain x y where len: "length x = 50" and split: "\<And>c. fv_header l c n b = x @ le16_bytes c @ y"
    using fv_header_split [of l n b] by blast
  consider "2 * k + 1 < 50" "k \<noteq> 25" | "k = 25" | "52 \<le> 2 * k" "k \<noteq> 25"
    by linarith
  then show ?thesis
  proof cases
    case 2
    have "u16_at (fv_header l c n b) 50 = c" for c
      using u16_at_append [of x c y] len by (simp add: split)
    with 2 show ?thesis by simp
  next
    case 3
    then have "\<not> 2 * k - 50 < 2" "\<not> 2 * k - 49 < 2"
      by linarith+
    with 3 show ?thesis
      by (simp add: split u16_at_def nth_append len)
  qed (simp add: split u16_at_def nth_append len)
qed

lemma fv_sum_header: "fv_sum (fv_header l c n b) = fv_sum (fv_header l 0 n b) + c"
proof -
  have "fv_sum (fv_header l c n b) = (\<Sum>k<36. u16_at (fv_header l 0 n b) (2 * k) + (if k = 25 then c else 0))"
    unfolding fv_sum_def by (intro sum.cong refl fv_header_word)
  then show ?thesis
    by (simp add: sum.distrib fv_sum_def)
qed

lemma makeEmptyOVMFStore_eq:
  assumes "100 \<le> n"
    and layout: "ovmf_layout (int n) flavor = (fvLength, stSize, blockLen, numBlocks)"
  shows "\<exists>c. makeEmptyOVMFStore (int n) flavor =
      Ok (fv_header (word_of_int fvLength) c numBlocks blockLen @ store_header EFIAuthenticatedVariableGUID (word_of_int stSize) @
          replicate (n - 100) 0xFF) \<and>
    fv_sum (fv_header (word_of_int fvLength) c numBlocks blockLen) = 0"
proof -
  let ?h = "\<lambda>c. fv_header (word_of_int fvLength) c numBlocks blockLen"
  let ?r = "replicate (n - 100) (0xFF :: byte)"
  have "fill (make_bytes n) 100 (n - 100) 0xFF = Ok (make_bytes 100 @ ?r)"
    using assms by (simp add: fill_erased)
  moreover have "sum16 (?h 0 @ make_bytes 28 @ ?r) 0 36 0 = Ok (fv_sum (?h 0))"
    using fv_sum_prefix [of "?h 0" "make_bytes 28 @ ?r"] by (simp add: sum16_eq fv_sum_def)
  ultimately have "makeEmptyOVMFStore (int n) flavor =
      Ok (?h (- fv_sum (?h 0)) @ store_header EFIAuthenticatedVariableGUID (word_of_int stSize) @ ?r)"
    by (simp add: makeEmptyOVMFStore_def layout FvHeaderSize_def StoreHeaderSize_def
        write_fv_header_eq write_store_header_eq)
  moreover have "fv_sum (?h (- fv_sum (?h 0))) = 0"
    by (subst fv_sum_header) simp
  ultimately show ?thesis by blast
qed


subsection \<open>A new store opens empty\<close>

lemma Open_written:
  assumes q: "quiet w" and f: "files w p = Some img" and len: "int (length img) \<le> sint DefaultMaxFileSize"
  shows "Open sio w p = (w, open_image sio p (resolve \<lparr> MaxFileSize = 0, MaxVariables = 0 \<rparr>) img)"
proof -
  have "sint DefaultMaxFileSize < 2 ^ 63 - 1"
    by (simp add: DefaultMaxFileSize_def)
  with assms show ?thesis
    by (simp add: Open_def OpenLimits_def resolve_def readStoreFile_quiet wrap_err_def Let_def)
qed

lemma erased_parse:
  assumes spec: "safeio_spec sio" and len: "length h + n + 64 \<le> 2 ^ 32"
    and h: "length h = unat off + StoreHeaderSize" and sz: "unat off + unat sz \<le> length h + n"
    and mv: "0 \<le> maxVars"
  shows "parseVariables sio (h @ replicate n 0xFF) off sz a maxVars = Ok []"
proof -
  have "unat off + 92 \<le> 2 ^ 32"
    using len h by (simp add: StoreHeaderSize_def)
  moreover have "walk (h @ replicate n 0xFF) (unat off + unat sz) a (length h) = []"
    using sz by (intro walk_erased) (auto simp: nth_append)
  ultimately show ?thesis
    using len sz mv by (simp add: parseVariables_eq_walk [OF spec] limited_def min_def flip: h)
qed

text \<open>Opening an image that has a healthy store header where \<open>detectFvWrap\<close> says it is.\<close>

lemma open_header_at:
  assumes x: "length x = header_off fv" and fv: "detectFvWrap (x @ store_header g sz @ r) = Ok fv"
    and a: "store_flavor g = Ok a"
  shows "open_header p l (x @ store_header g sz @ r) =
    Ok \<lparr> path = p, lim = l, vars = [], fvWrapped = fv, authVars = a,
         storeOff = of_nat (header_off fv), storeSize = clamped (int (28 + length r)) sz \<rparr>"
    (is "open_header p l ?img = _")
proof -
  let ?o = "header_off fv"
  have "?img ! (?o + 20) = StoreFormatted" "?img ! (?o + 21) = StoreHealthy"
    by (simp_all add: nth_append store_header_def flip: x)
  moreover have "take 16 (drop ?o ?img) = bytes_of16 g" "take 4 (drop (?o + 16) ?img) = le32_bytes sz"
    by (simp_all add: store_header_def flip: x)
  moreover have "Uint32 (le32_bytes sz) = Ok sz"
    using Uint32_bytes [of sz "[]"] by simp
  moreover have "length ?img = ?o + (28 + length r)"
    using x by simp
  ultimately show ?thesis
    using fv a unfolding open_header_def by (simp add: StoreHeaderSize_def slice_Ok index_Ok)
qed

lemma store_flavors:
  "store_flavor EFIVariableGUID = Ok False" "store_flavor EFIAuthenticatedVariableGUID = Ok True"
  by (simp_all add: store_flavor_def EFIVariableGUID_def EFIAuthenticatedVariableGUID_def)

lemma detectFvWrap_headers:
  "detectFvWrap (store_header g sz @ r) = Ok False"
  "detectFvWrap (fv_header l c n b @ r) = Ok True"
proof -
  show "detectFvWrap (store_header g sz @ r) = Ok False"
    by (rule detectFvWrap_raw) (simp add: store_header_def nth_append)
  have "Uint32 (le32_bytes fvSignature) = Ok fvSignature"
    using Uint32_bytes [of fvSignature "[]"] by simp
  then show "detectFvWrap (fv_header l c n b @ r) = Ok True"
    by (simp add: detectFvWrap_def FvHeaderSize_def slice_Ok fv_header_def)
qed

lemma open_formatted:
  assumes spec: "safeio_spec sio" and x: "length x = header_off fv"
    and fv: "detectFvWrap (x @ store_header g sz @ replicate n 0xFF) = Ok fv" and a: "store_flavor g = Ok a"
    and sz: "unat sz \<le> 28 + n" and len: "n + 164 \<le> 2 ^ 32" and mv: "0 \<le> sint (MaxVariables l)"
  shows "open_image sio p l (x @ store_header g sz @ replicate n 0xFF) =
    Ok \<lparr> path = p, lim = l, vars = [], fvWrapped = fv, authVars = a,
         storeOff = of_nat (header_off fv), storeSize = sz \<rparr>"
proof -
  have off: "unat (of_nat (header_off fv) :: u32) = header_off fv"
    using header_off_bounds(1) [of fv] by (intro unat_of_nat_u32) simp
  have "\<not> uint sz > int (28 + n)"
    using sz uint_nat [of sz] by linarith
  then have "clamped (int (28 + n)) sz = sz"
    by (simp add: clamped_def)
  moreover have "parseVariables sio ((x @ store_header g sz) @ replicate n 0xFF) (of_nat (header_off fv)) sz a
      (sint (MaxVariables l)) = Ok []"
    using sz len x off header_off_bounds(1) [of fv]
    by (intro erased_parse [OF spec]) (simp_all add: StoreHeaderSize_def mv)
  ultimately show ?thesis
    using open_header_at [OF x fv a] by (simp add: open_image_header wrap_err_def)
qed

abbreviation default_limits :: Limits where
  "default_limits \<equiv> \<lparr> MaxFileSize = DefaultMaxFileSize, MaxVariables = DefaultMaxVariables \<rparr>"

lemma sint_defaults: "sint DefaultMaxFileSize = 2 ^ 28" "sint DefaultMaxVariables = 2 ^ 16"
  by (simp_all add: DefaultMaxFileSize_def DefaultMaxVariables_def)

lemma resolve_default: "resolve \<lparr> MaxFileSize = 0, MaxVariables = 0 \<rparr> = default_limits"
  by (simp add: resolve_def)

lemma Format_Ok:
  assumes spec: "safeio_spec sio" and q: "quiet w" and n: "32 \<le> n" "n \<le> 2 ^ 28"
  shows "Format sio w p (int n) =
    (w\<lparr>files := (files w)(p \<mapsto> store_header EFIVariableGUID (of_nat n) @ replicate (n - 28) 0xFF)\<rparr>,
     Ok \<lparr> path = p, lim = default_limits, vars = [], fvWrapped = False, authVars = False,
          storeOff = 0, storeSize = of_nat n \<rparr>)"
proof -
  let ?img = "store_header EFIVariableGUID (of_nat n) @ replicate (n - 28) 0xFF"
  have "unat (of_nat n :: u32) = n"
    using n by (intro unat_of_nat_u32) simp
  then have "open_image sio p default_limits ([] @ ?img) =
      Ok \<lparr> path = p, lim = default_limits, vars = [], fvWrapped = False, authVars = False,
           storeOff = of_nat (header_off False), storeSize = of_nat n \<rparr>"
    using n by (intro open_formatted [OF spec])
      (simp_all add: header_off_def store_flavors detectFvWrap_headers sint_defaults)
  moreover have "makeEmptyStore (int n) = Ok ?img"
    using n by (intro makeEmptyStore_eq) (simp add: StoreHeaderSize_def)
  moreover have "Open sio (w\<lparr>files := (files w)(p \<mapsto> ?img)\<rparr>) p =
      (w\<lparr>files := (files w)(p \<mapsto> ?img)\<rparr>, open_image sio p default_limits ?img)"
    using n q by (subst Open_written [of _ p ?img]) (simp_all add: sint_defaults resolve_default)
  ultimately show ?thesis
    using n by (simp add: Format_def StoreHeaderSize_def sint_defaults WriteFile_quiet [OF q] header_off_def)
qed

lemma FormatOVMF_Ok:
  assumes spec: "safeio_spec sio" and q: "quiet w"
    and n: "(if flavor = OVMFAArch64 then 0xC0000 else 104) \<le> n" "n \<le> 2 ^ 28"
  obtains img where "FormatOVMF sio w p (int n) flavor =
      (w\<lparr>files := (files w)(p \<mapsto> img)\<rparr>,
       Ok \<lparr> path = p, lim = default_limits, vars = [], fvWrapped = True, authVars = True,
            storeOff = 72, storeSize = (if flavor = OVMFAArch64 then 0x3FFB8 else of_nat (n - 72)) \<rparr>)"
    "length img = n" "fv_sum img = 0"
proof -
  let ?sz = "if flavor = OVMFAArch64 then 0x3FFB8 else of_nat (n - 72) :: u32"
  obtain fvLength stSize blockLen numBlocks
    where layout: "ovmf_layout (int n) flavor = (fvLength, stSize, blockLen, numBlocks)"
    by (rule prod_cases4)
  have st: "word_of_int stSize = ?sz"
    using layout n by (auto simp: ovmf_layout_def armVirtNvVarStoreSize_def FvHeaderSize_def
        split: if_splits)
  have n100: "100 \<le> n"
    using n by (simp split: if_splits)
  from makeEmptyOVMFStore_eq [OF n100 layout] obtain h
    where h: "length h = 72" "detectFvWrap (h @ store_header EFIAuthenticatedVariableGUID ?sz @ replicate (n - 100) 0xFF) = Ok True"
      "fv_sum h = 0"
      and mk: "makeEmptyOVMFStore (int n) flavor =
        Ok (h @ store_header EFIAuthenticatedVariableGUID ?sz @ replicate (n - 100) 0xFF)"
    unfolding st using detectFvWrap_headers(2) length_fv_header by metis
  define img where "img = h @ store_header EFIAuthenticatedVariableGUID ?sz @ replicate (n - 100) 0xFF"
  have "unat ?sz \<le> 28 + (n - 100)"
  proof (cases "flavor = OVMFAArch64")
    case False
    have "unat (of_nat (n - 72) :: u32) = n - 72"
      using n by (intro unat_of_nat_u32) simp
    then show ?thesis
      using False n100 by simp
  qed (use n in simp)
  then have "open_image sio p default_limits img =
      Ok \<lparr> path = p, lim = default_limits, vars = [], fvWrapped = True, authVars = True,
           storeOff = of_nat (header_off True), storeSize = ?sz \<rparr>"
    unfolding img_def using n h
    by (intro open_formatted [OF spec]) (simp_all add: header_off_def store_flavors sint_defaults FvHeaderSize_def)
  moreover have len: "length img = n"
    using n100 h by (simp add: img_def)
  moreover have "Open sio (w\<lparr>files := (files w)(p \<mapsto> img)\<rparr>) p =
      (w\<lparr>files := (files w)(p \<mapsto> img)\<rparr>, open_image sio p default_limits img)"
    using n q len by (subst Open_written [of _ p img]) (simp_all add: sint_defaults resolve_default)
  moreover have "fv_sum img = 0"
    using h by (simp add: img_def fv_sum_prefix)
  ultimately show ?thesis
    using n mk [folded img_def] that [of img]
    by (auto simp: FormatOVMF_def FvHeaderSize_def StoreHeaderSize_def armVirtNvVarFvSize_def sint_defaults
        WriteFile_quiet [OF q] header_off_def Let_def split: if_splits)
qed

subsection \<open>Opened and formatted stores agree with their files\<close>

lemma OpenLimits_Ok_bound:
  assumes "quiet w" "OpenLimits sio w p l = (w', Ok s)" "files w p = Some c"
  shows "int (length c) \<le> sint (MaxFileSize (resolve l))"
  using assms
  by (auto simp: OpenLimits_def Let_def readStoreFile_defs open_file_quiet wrap_err_def bindR_Ok_iff
      split: if_splits res.splits)

lemma Open_synced:
  assumes q: "quiet w" and op: "Open sio w p = (w', Ok s)"
  shows "w' = w" "synced sio w s" "path s = p" "lim s = default_limits"
proof -
  have len: "length c + 64 \<le> 2 ^ 32" if "files w p = Some c" for c
    using OpenLimits_Ok_bound [OF q op [unfolded Open_def] that] by (simp add: resolve_default sint_defaults)
  have "sint (MaxFileSize (resolve \<lparr> MaxFileSize = 0, MaxVariables = 0 \<rparr>)) < 2 ^ 63 - 1"
    by (simp add: resolve_default sint_defaults)
  note * = open_synced [OF q op [unfolded Open_def] len this]
  show "w' = w" "synced sio w s" "path s = p" "lim s = default_limits"
    using * by (simp_all add: resolve_default)
qed

lemma Format_opens:
  "quiet w \<Longrightarrow> Format sio w p n = (w', Ok s) \<Longrightarrow> \<exists>img. Open sio (w\<lparr>files := (files w)(p \<mapsto> img)\<rparr>) p = (w', Ok s)"
  by (auto simp: Format_def WriteFile_quiet split: if_splits res.splits)

lemma FormatOVMF_opens:
  "quiet w \<Longrightarrow> FormatOVMF sio w p n fl = (w', Ok s) \<Longrightarrow> \<exists>img. Open sio (w\<lparr>files := (files w)(p \<mapsto> img)\<rparr>) p = (w', Ok s)"
  by (auto simp: FormatOVMF_def Let_def WriteFile_quiet split: if_splits res.splits)

lemma formatted_synced:
  assumes "quiet w" "Format sio w p n = (w', Ok s) \<or> FormatOVMF sio w p n fl = (w', Ok s)"
  shows "synced sio w' s" "quiet w'" "path s = p" "lim s = default_limits"
proof -
  obtain img where op: "Open sio (w\<lparr>files := (files w)(p \<mapsto> img)\<rparr>) p = (w', Ok s)"
    using assms Format_opens FormatOVMF_opens by metis
  have q: "quiet (w\<lparr>files := (files w)(p \<mapsto> img)\<rparr>)"
    using assms(1) by simp
  from Open_synced [OF q op] q show "synced sio w' s" "quiet w'" "path s = p" "lim s = default_limits"
    by simp_all
qed

text \<open>Property C26. Format creates an empty raw store: for every size between 32 bytes and the
  256 MiB ceiling it succeeds, the returned store has no variables, the raw layout and the
  requested size, reopening the file gives the same store, and no other file changes.\<close>

theorem Format_creates_empty_store:
  assumes "safeio_spec sio" and "quiet w" and "32 \<le> n" and "n \<le> 2 ^ 28"
  shows "\<exists>w' s. Format sio w p (int n) = (w', Ok s) \<and> vars s = [] \<and> \<not> fvWrapped s \<and> \<not> authVars s \<and>
    storeOff s = 0 \<and> unat (storeSize s) = n \<and> Open sio w' p = (w', Ok s) \<and> (\<forall>q. q \<noteq> p \<longrightarrow> files w' q = files w q)"
proof -
  note F = Format_Ok [OF assms, of p]
  note syn = formatted_synced [OF assms(2) disjI1 [OF F]]
  from synced_open [OF syn(2,1), of "\<lparr> MaxFileSize = 0, MaxVariables = 0 \<rparr>"] show ?thesis
    using assms(4) by (simp add: F Open_def resolve_default unat_of_nat_u32)
qed

theorem Format_creates_empty_store_witness:
  "\<exists>w' s. Format counting_safeio \<lparr> files = (\<lambda>_. None), rscript = [], wscript = [] \<rparr> ''v'' (int 4096) = (w', Ok s) \<and>
    vars s = [] \<and> unat (storeSize s) = 4096 \<and> Open counting_safeio w' ''v'' = (w', Ok s)"
  using Format_creates_empty_store [of counting_safeio "\<lparr> files = (\<lambda>_. None), rscript = [], wscript = [] \<rparr>" 4096 "''v''"]
    counting_safeio_spec by (auto simp: quiet_def)

text \<open>Property C13. FormatOVMF creates an empty authenticated store behind a firmware-volume
  header, in either flavor, for every size that its guards admit: the 36 words of the volume
  header sum to zero, the store begins at offset 72 with the size of the flavor, it has no
  variables, and reopening the file gives the same store.\<close>

theorem FormatOVMF_creates_empty_store:
  assumes "safeio_spec sio" and "quiet w"
    and "(if flavor = OVMFAArch64 then 0xC0000 else 104) \<le> n" and "n \<le> 2 ^ 28"
  shows "\<exists>img w' s. FormatOVMF sio w p (int n) flavor = (w', Ok s) \<and> files w' = (files w)(p \<mapsto> img) \<and>
    length img = n \<and> fv_sum img = 0 \<and> vars s = [] \<and> fvWrapped s \<and> authVars s \<and> storeOff s = 72 \<and>
    unat (storeSize s) = (if flavor = OVMFAArch64 then 0x40000 - 72 else n - 72) \<and> Open sio w' p = (w', Ok s)"
proof -
  from FormatOVMF_Ok [OF assms, of p] obtain img where F: "FormatOVMF sio w p (int n) flavor =
      (w\<lparr>files := (files w)(p \<mapsto> img)\<rparr>,
       Ok \<lparr> path = p, lim = default_limits, vars = [], fvWrapped = True, authVars = True,
            storeOff = 72, storeSize = (if flavor = OVMFAArch64 then 0x3FFB8 else of_nat (n - 72)) \<rparr>)"
    "length img = n" "fv_sum img = 0"
    by blast
  note syn = formatted_synced [OF assms(2) disjI2 [OF F(1)]]
  from synced_open [OF syn(2,1), of "\<lparr> MaxFileSize = 0, MaxVariables = 0 \<rparr>"] show ?thesis
    using assms(4) by (intro exI [of _ img]) (simp add: F Open_def resolve_default unat_of_nat_u32)
qed

theorem FormatOVMF_creates_empty_store_witness:
  "\<exists>w' s. FormatOVMF counting_safeio \<lparr> files = (\<lambda>_. None), rscript = [], wscript = [] \<rparr> ''v'' (int 0x80000) OVMFX86_64 =
     (w', Ok s) \<and> vars s = [] \<and> fvWrapped s \<and> authVars s \<and> unat (storeSize s) = 0x80000 - 72"
  using FormatOVMF_creates_empty_store [of counting_safeio "\<lparr> files = (\<lambda>_. None), rscript = [], wscript = [] \<rparr>"
      OVMFX86_64 "0x80000" "''v''"] counting_safeio_spec
  by (auto simp: quiet_def OVMFX86_64_def OVMFAArch64_def)


end
