(* ===== verification/Store_Runs.thy ===== *)
theory Store_Runs
  imports Format_Store
begin

text \<open>
  The store over whole runs: what \<open>Set\<close> and \<open>Delete\<close> do to the file and to the in-memory list,
  that a reopened file gives the same store, and a step relation of the operations of an
  opened store whose reachable states keep file and memory equal. None of the operations
  panics, whatever the file holds and whichever system calls fail.
\<close>

subsection \<open>No panic\<close>

lemma open_image_not_Panic:
  assumes "safeio_spec sio" "length data + 64 \<le> 2 ^ 32"
  shows "open_image sio p l data \<noteq> Panic"
proof (cases "open_header p l data")
  case (Ok s)
  have "unat (storeOff s) + 92 \<le> 2 ^ 32"
    using open_header_Ok(4) [OF Ok] header_off_bounds(1) [of "fvWrapped s"] by simp
  with Ok show ?thesis
    by (simp add: open_image_header parseVariables_eq_walk [OF assms] bindR_Panic_iff limited_def)
qed (simp_all add: open_image_header open_header_not_Panic)

lemma OpenLimits_not_Panic:
  assumes spec: "safeio_spec sio" and mx: "sint (MaxFileSize (resolve l)) + 64 \<le> 2 ^ 32"
  shows "snd (OpenLimits sio w p l) \<noteq> Panic"
proof -
  obtain w' r where rd: "readStoreFile w p (MaxFileSize (resolve l)) = (w', r)"
    by (cases "readStoreFile w p (MaxFileSize (resolve l))")
  show ?thesis
  proof (cases r)
    case (Ok data)
    have "length data + 64 \<le> 2 ^ 32"
      using readStoreFile_bound [OF rd [unfolded Ok]] mx by simp
    then show ?thesis
      using open_image_not_Panic [OF spec] by (simp add: OpenLimits_def rd Ok)
  next
    case Panic
    then show ?thesis
      using readStoreFile_not_Panic [of w p "MaxFileSize (resolve l)"] rd by simp
  qed (simp add: OpenLimits_def rd)
qed

lemma flush_not_Panic: "snd (snd (flush w s vs)) \<noteq> Panic"
  using readStoreFile_not_Panic [of w "path s" "MaxFileSize (lim s)"] buildStore_not_Panic WriteFile_not_Panic
  by (auto simp: flush_def split: prod.split res.split) (metis snd_conv)

text \<open>Property C14. Opening never panics: for any file contents and any failure of the system
  calls, with a size limit that keeps offsets within 32 bits (the default limit does),
  OpenLimits returns a store or an error.\<close>

theorem OpenLimits_never_panics:
  assumes "safeio_spec sio" and "sint (MaxFileSize (resolve l)) + 64 \<le> 2 ^ 32"
  shows "snd (OpenLimits sio w p l) \<noteq> Panic"
  by (rule OpenLimits_not_Panic [OF assms])

theorem OpenLimits_never_panics_witness:
  "snd (OpenLimits counting_safeio \<lparr> files = [''f'' \<mapsto> [0x78, 0x2c]], rscript = [RdStatErr], wscript = [] \<rparr>
      ''f'' \<lparr> MaxFileSize = 0, MaxVariables = 0 \<rparr>) \<noteq> Panic"
  by (rule OpenLimits_never_panics [OF counting_safeio_spec]) (simp add: resolve_default sint_defaults)

text \<open>Property C27. Set and Delete never panic, in any state of the store and whatever the file
  has become since it was opened: a store that no longer fits the file is an error.\<close>

theorem Set_Delete_never_panic:
  "snd (snd (Set_var w s v)) \<noteq> Panic \<and> snd (snd (Delete w s n g)) \<noteq> Panic"
  using flush_not_Panic by (auto simp: Set_var_def Delete_def Let_def split: prod.split)

subsection \<open>What a write does\<close>

text \<open>The store lies inside its file, which is within the size limit.\<close>

definition backed :: "os \<Rightarrow> store \<Rightarrow> bytes \<Rightarrow> bool" where
  "backed w s img \<longleftrightarrow> files w (path s) = Some img \<and>
     int (length img) \<le> sint (MaxFileSize (lim s)) \<and> sint (MaxFileSize (lim s)) < 2 ^ 63 - 1 \<and>
     unat (storeOff s) + unat (storeSize s) \<le> length img \<and> unat (storeOff s) + StoreHeaderSize \<le> length img"

lemma synced_backed: "synced sio w s \<Longrightarrow> \<exists>img. backed w s img"
proof -
  assume "synced sio w s"
  then obtain img where op: "open_image sio (path s) (lim s) img = Ok s" and len: "length img + 64 \<le> 2 ^ 32"
    and rest: "files w (path s) = Some img" "int (length img) \<le> sint (MaxFileSize (lim s))"
      "sint (MaxFileSize (lim s)) < 2 ^ 63 - 1"
    by (auto simp: synced_def)
  have "unat (storeOff s) + unat (storeSize s) \<le> length img" "unat (storeOff s) + StoreHeaderSize \<le> length img"
    using open_header_Ok(9) [OF open_image_Ok(1) [OF op]] open_image_layout(3,4) [OF op] len by simp_all
  with rest show ?thesis
    by (auto simp: backed_def)
qed

text \<open>The image that \<open>flush\<close> writes over \<open>img\<close>.\<close>

definition rebuilt :: "store \<Rightarrow> bytes \<Rightarrow> Variable list \<Rightarrow> bytes" where
  "rebuilt s img vs =
     (let h = unat (storeOff s) + StoreHeaderSize; e = unat (storeOff s) + unat (storeSize s);
          payload = serializeVars vs (authVars s)
      in take h img @ payload @ replicate (e - h - length payload) 0xFF @ drop e img)"

lemma flush_eq:
  assumes q: "quiet w" and b: "backed w s img"
  shows "flush w s vs =
    (if StoreHeaderSize + length (serializeVars vs (authVars s)) \<le> unat (storeSize s)
     then (w\<lparr>files := (files w)(path s \<mapsto> rebuilt s img vs)\<rparr>, s\<lparr>vars := vs\<rparr>, Ok ())
     else (w, s, Err (Leaf ''uefi: variables exceed store size'')))"
proof -
  have "readStoreFile w (path s) (MaxFileSize (lim s)) = (w, Ok img)"
    using b by (intro readStoreFile_quiet [OF q]) (simp_all add: backed_def)
  then show ?thesis
    using b by (simp add: flush_def buildStore_eq Let_def rebuilt_def WriteFile_quiet [OF q] backed_def)
qed

lemma rebuilt_frame:
  assumes b: "backed w s img" and fit: "StoreHeaderSize + length (serializeVars vs (authVars s)) \<le> unat (storeSize s)"
  shows "length (rebuilt s img vs) = length img"
    "i < length img \<Longrightarrow> i < unat (storeOff s) + StoreHeaderSize \<or> unat (storeOff s) + unat (storeSize s) \<le> i \<Longrightarrow>
     rebuilt s img vs ! i = img ! i"
proof -
  show "length (rebuilt s img vs) = length img"
    using b fit by (simp add: rebuilt_def Let_def backed_def)
  show "rebuilt s img vs ! i = img ! i"
    if "i < length img" "i < unat (storeOff s) + StoreHeaderSize \<or> unat (storeOff s) + unat (storeSize s) \<le> i"
    using b fit that by (auto simp: rebuilt_def Let_def nth_append backed_def)
qed

lemma flush_backed:
  assumes q: "quiet w" and b: "backed w s img" and fl: "flush w s vs = (w', s', Ok ())"
  shows "quiet w'" "\<exists>img'. backed w' s' img'" "s' = s\<lparr>vars := vs\<rparr>"
    "StoreHeaderSize + length (serializeVars vs (authVars s)) \<le> unat (storeSize s)"
proof -
  note fl = fl [unfolded flush_eq [OF q b]]
  show fit: "StoreHeaderSize + length (serializeVars vs (authVars s)) \<le> unat (storeSize s)"
    and "s' = s\<lparr>vars := vs\<rparr>" and "quiet w'"
    using fl q by (auto split: if_splits)
  have "backed w' s' (rebuilt s img vs)"
    using fl b rebuilt_frame(1) [OF b fit] by (auto simp: backed_def split: if_splits)
  then show "\<exists>img'. backed w' s' img'" ..
qed

text \<open>The variable list after \<open>Set\<close> and after a \<open>Delete\<close> that finds its variable.\<close>

definition vars_set :: "Variable list \<Rightarrow> Variable \<Rightarrow> Variable list" where
  "vars_set vs v = filter (\<lambda>e. \<not> same_var (vName v) (vGUID v) e) vs @ [v]"

definition vars_delete :: "Variable list \<Rightarrow> string \<Rightarrow> GUID \<Rightarrow> Variable list" where
  "vars_delete vs n g = filter (\<lambda>e. \<not> same_var n g e) vs"

lemma Set_var_flush: "Set_var w s v = flush w s (vars_set (vars s) v)"
  by (simp add: Set_var_def without_var_eq vars_set_def)

lemma Delete_flush:
  "Delete w s n g =
     (if \<exists>v \<in> set (vars s). same_var n g v then flush w s (vars_delete (vars s) n g)
      else (w, s, Err (errNoVariable n)))"
  by (auto simp: Delete_def without_var_eq vars_delete_def)

text \<open>A write that fits succeeds, through the method table too, and the file goes on backing the store.\<close>

lemma nv_set_fits:
  assumes q: "quiet w" and b: "backed w s img"
    and fit: "StoreHeaderSize + length (serializeVars (vars_set (vars s) v) (authVars s)) \<le> unat (storeSize s)"
  shows "\<exists>w' img'. vsSet nv_store (w, s) v = ((w', s\<lparr>vars := vars_set (vars s) v\<rparr>), Ok ()) \<and> quiet w' \<and>
    backed w' (s\<lparr>vars := vars_set (vars s) v\<rparr>) img'"
proof -
  obtain w' where fl: "flush w s (vars_set (vars s) v) = (w', s\<lparr>vars := vars_set (vars s) v\<rparr>, Ok ())"
    using fit by (simp add: flush_eq [OF q b])
  from flush_backed [OF q b fl] fl show ?thesis
    by (auto simp: Set_var_flush)
qed

text \<open>Property C12. Set in a quiet system: it succeeds exactly when the records of the new
  variable list fit behind the store header, it then replaces the variable of the same name
  and GUID and puts the new one last, and it changes nothing in the file but the record
  region and nothing in any other file. When they do not fit, it reports the error and
  leaves the file and the store as they were.\<close>

theorem Set_behaviour:
  assumes "quiet w" and "synced sio w s" and "Set_var w s v = (w', s', r)"
  shows "if StoreHeaderSize + length (serializeVars (vars_set (vars s) v) (authVars s)) \<le> unat (storeSize s)
    then r = Ok () \<and> s' = s\<lparr>vars := vars_set (vars s) v\<rparr> \<and> (\<forall>p. p \<noteq> path s \<longrightarrow> files w' p = files w p) \<and>
      (\<exists>img buf. files w (path s) = Some img \<and> files w' (path s) = Some buf \<and> length buf = length img \<and>
        (\<forall>i < length img. i < unat (storeOff s) + StoreHeaderSize \<or> unat (storeOff s) + unat (storeSize s) \<le> i \<longrightarrow>
           buf ! i = img ! i))
    else r = Err (Leaf ''uefi: variables exceed store size'') \<and> w' = w \<and> s' = s"
proof -
  obtain img where b: "backed w s img"
    using synced_backed [OF assms(2)] by blast
  note fl = assms(3) [unfolded Set_var_flush flush_eq [OF assms(1) b]]
  show ?thesis
    using fl b rebuilt_frame [OF b] by (auto simp: backed_def)
qed

text \<open>A concrete store for the witnesses: a freshly formatted raw store of 4096 bytes.\<close>

definition demo_os0 :: os where
  "demo_os0 = \<lparr> files = (\<lambda>_. None), rscript = [], wscript = [] \<rparr>"

definition demo_os :: os where
  "demo_os = demo_os0\<lparr>files := [''v'' \<mapsto> store_header EFIVariableGUID (of_nat 4096) @ replicate (4096 - 28) 0xFF]\<rparr>"

definition demo_store :: store where
  "demo_store = \<lparr> path = ''v'', lim = default_limits, vars = [], fvWrapped = False, authVars = False,
     storeOff = 0, storeSize = of_nat 4096 \<rparr>"

definition demo_var :: Variable where
  "demo_var = \<lparr> vName = ''Lang'', vGUID = EFIGlobalVariableGUID, vAttributes = 7, vData = [1, 2, 3] \<rparr>"

lemma demo_format: "Format counting_safeio demo_os0 ''v'' (int 4096) = (demo_os, Ok demo_store)"
  using Format_Ok [OF counting_safeio_spec, of demo_os0 4096 "''v''"]
  by (simp add: demo_os_def demo_store_def quiet_def demo_os0_def)

lemma demo_synced: "quiet demo_os" "synced counting_safeio demo_os demo_store"
  using formatted_synced [of demo_os0, OF _ disjI1 [OF demo_format]] by (simp_all add: quiet_def demo_os0_def)

lemma demo_utf16: "EncodeUTF16LE ''Lang'' = [0x4c, 0, 0x61, 0, 0x6e, 0, 0x67, 0, 0, 0]"
  by (simp add: EncodeUTF16LE_def runes_of_ascii utf16_Encode_def utf16_units_def scalar_def le16_bytes_def)

lemma demo_length: "length (serializeVars [demo_var] a) = (if a then 76 else 48)"
  by (simp add: serializeVars_def length_encodeVariable raw_size_def demo_var_def demo_utf16 hdr_size_def
      nv_consts align4_def)

lemma demo_set: "\<exists>w'. Set_var demo_os demo_store demo_var = (w', demo_store\<lparr>vars := [demo_var]\<rparr>, Ok ())"
proof -
  obtain img where "backed demo_os demo_store img"
    using synced_backed [OF demo_synced(2)] by blast
  from flush_eq [OF demo_synced(1) this] show ?thesis
    by (simp add: Set_var_flush vars_set_def demo_length demo_store_def StoreHeaderSize_def)
qed

theorem Set_behaviour_witness:
  "\<exists>w'. Set_var demo_os demo_store demo_var = (w', demo_store\<lparr>vars := [demo_var]\<rparr>, Ok ()) \<and>
     (\<forall>p. p \<noteq> ''v'' \<longrightarrow> files w' p = files demo_os p)"
proof -
  obtain w' s' r where d: "Set_var demo_os demo_store demo_var = (w', s', r)"
    by (cases "Set_var demo_os demo_store demo_var")
  from Set_behaviour [OF demo_synced d] show ?thesis
    using d by (simp add: vars_set_def demo_length demo_store_def StoreHeaderSize_def split: if_splits)
qed

subsection \<open>Durability\<close>

lemma resolve_idem: "resolve (resolve l) = resolve l"
  by (simp add: resolve_def Let_def DefaultMaxFileSize_def DefaultMaxVariables_def)

text \<open>
  What reopening a written file gives: the written list, each name as UTF-16 keeps it, or
  the count error when the list is longer than the limit.
\<close>

lemma flush_reopen_cases:
  assumes "safeio_spec sio" "quiet w" "synced sio w s" "flush w s vs = (w', s', Ok ())" "resolve l = lim s"
  shows "OpenLimits sio w' (path s) l =
    (w', if vs = [] \<or> int (length vs) \<le> sint (MaxVariables (lim s)) then Ok (s\<lparr>vars := map stored_var vs\<rparr>)
         else Err (Wrap ''uefi: parse: %w'' (Wrap ''store holds more than %d variables: %w'' ErrTooLarge)))"
  by (simp add: flush_reopen [OF assms] limited_def)

lemma stored_vars_set:
  assumes "safeio_spec sio" "synced sio w s" "valid_utf8 (vName v)"
  shows "map stored_var (vars_set (vars s) v) = vars_set (vars s) v"
  using assms(3) synced_names [OF assms(1,2)]
  by (intro map_idI) (auto simp: vars_set_def intro: stored_var_valid)

lemma stored_vars_delete:
  assumes "safeio_spec sio" "synced sio w s"
  shows "map stored_var (vars_delete (vars s) n g) = vars_delete (vars s) n g"
  using synced_names [OF assms] by (intro map_idI) (auto simp: vars_delete_def intro: stored_var_valid)

text \<open>Property C3. Durability of Set: after a Set that reported success, reopening the file
  with the same limits gives the updated variable list, in order, when the list is within
  MaxVariables; each name comes back as its UTF-16 form keeps it, so a valid UTF-8 name
  comes back unchanged.\<close>

theorem Set_durable:
  assumes "safeio_spec sio" and "quiet w" and "synced sio w s" and "resolve l = lim s"
    and "Set_var w s v = (w', s', Ok ())"
    and "int (length (vars_set (vars s) v)) \<le> sint (MaxVariables (lim s))"
  shows "OpenLimits sio w' (path s) l = (w', Ok (s\<lparr>vars := map stored_var (vars_set (vars s) v)\<rparr>)) \<and>
    (valid_utf8 (vName v) \<longrightarrow> OpenLimits sio w' (path s) l = (w', Ok s'))"
proof -
  note fl = assms(5) [unfolded Set_var_flush]
  show ?thesis
    using flush_reopen_cases [OF assms(1-3) fl assms(4)] assms(6) stored_vars_set [OF assms(1,3)]
    by (simp add: flush_Ok_vars [OF fl])
qed

theorem Set_durable_witness:
  "\<exists>w'. Set_var demo_os demo_store demo_var = (w', demo_store\<lparr>vars := [demo_var]\<rparr>, Ok ()) \<and>
     OpenLimits counting_safeio w' ''v'' default_limits = (w', Ok (demo_store\<lparr>vars := [demo_var]\<rparr>))"
proof -
  obtain w' where d: "Set_var demo_os demo_store demo_var = (w', demo_store\<lparr>vars := [demo_var]\<rparr>, Ok ())"
    using demo_set by blast
  have "resolve default_limits = lim demo_store"
    by (simp add: demo_store_def resolve_def DefaultMaxFileSize_def DefaultMaxVariables_def)
  from Set_durable [OF counting_safeio_spec demo_synced this d] d show ?thesis
    by (auto simp: demo_store_def vars_set_def sint_defaults demo_var_def valid_utf8_ascii)
qed

text \<open>Property C39. The variable limit binds reading only. In a quiet system, a Set whose list is
  longer than MaxVariables, and whose records fit behind the store header, succeeds and updates
  the list, and reopening the file that it wrote with the same limits is refused with
  ErrTooLarge.\<close>

theorem Set_over_limit_unreadable:
  assumes "safeio_spec sio" and "quiet w" and "synced sio w s" and "resolve l = lim s"
    and "StoreHeaderSize + length (serializeVars (vars_set (vars s) v) (authVars s)) \<le> unat (storeSize s)"
    and "int (length (vars_set (vars s) v)) > sint (MaxVariables (lim s))"
  shows "\<exists>w' e. Set_var w s v = (w', s\<lparr>vars := vars_set (vars s) v\<rparr>, Ok ()) \<and>
    OpenLimits sio w' (path s) l = (w', Err e) \<and> errors_Is e ErrTooLarge"
proof -
  obtain img where b: "backed w s img"
    using synced_backed [OF assms(3)] by blast
  obtain w' where fl: "flush w s (vars_set (vars s) v) = (w', s\<lparr>vars := vars_set (vars s) v\<rparr>, Ok ())"
    using assms(5) by (simp add: flush_eq [OF assms(2) b])
  show ?thesis
    using flush_reopen_cases [OF assms(1-3) fl assms(4)] fl assms(6)
    by (simp add: Set_var_flush vars_set_def)
qed

subsection \<open>Runs\<close>

text \<open>
  One step of an opened store in a quiet system: a \<open>Set\<close> or \<open>Delete\<close>, whatever it returns, or
  closing and reopening. A \<open>Set\<close> is a step when the name is valid UTF-8 and the list stays
  within the limit.
\<close>

inductive store_step :: "'g safeio \<Rightarrow> os \<times> store \<Rightarrow> os \<times> store \<Rightarrow> bool" for sio where
  step_set: "Set_var w s v = (w', s', r) \<Longrightarrow> valid_utf8 (vName v) \<Longrightarrow>
    int (length (vars_set (vars s) v)) \<le> sint (MaxVariables (lim s)) \<Longrightarrow> store_step sio (w, s) (w', s')"
| step_delete: "Delete w s n g = (w', s', r) \<Longrightarrow> store_step sio (w, s) (w', s')"
| step_reopen: "OpenLimits sio w (path s) (lim s) = (w', Ok s') \<Longrightarrow> store_step sio (w, s) (w', s')"

inductive_cases store_stepE: "store_step sio (w, s) (w', s')"

definition distinct_keys :: "store \<Rightarrow> bool" where
  "distinct_keys s \<longleftrightarrow> distinct (map (\<lambda>v. (vName v, vGUID v)) (vars s))"

text \<open>The invariant of a run, with the layout that the store was opened with.\<close>

definition run_inv :: "'g safeio \<Rightarrow> store \<Rightarrow> os \<times> store \<Rightarrow> bool" where
  "run_inv sio s0 st \<longleftrightarrow>
     quiet (fst st) \<and> synced sio (fst st) (snd st) \<and> int (length (vars (snd st))) \<le> sint (MaxVariables (lim s0)) \<and>
     (\<exists>vs. snd st = s0\<lparr>vars := vs\<rparr>) \<and> (distinct_keys s0 \<longrightarrow> distinct_keys (snd st))"

lemma flush_run_inv:
  assumes spec: "safeio_spec sio" and inv: "run_inv sio s0 (w, s)" and fl: "flush w s vs = (w', s', r)"
    and names: "\<forall>v \<in> set vs. valid_utf8 (vName v)" and count: "int (length vs) \<le> sint (MaxVariables (lim s))"
    and dist: "distinct_keys s \<Longrightarrow> distinct_keys (s\<lparr>vars := vs\<rparr>)"
  shows "run_inv sio s0 (w', s')"
proof (cases r)
  case (Ok x)
  have q: "quiet w" "synced sio w s"
    using inv by (simp_all add: run_inv_def)
  note fl' = fl [unfolded Ok unit_eq [of x]]
  from synced_flush [OF spec q names count fl'] flush_Ok_vars [OF fl'] inv dist count show ?thesis
    by (auto simp: run_inv_def)
next
  case (Err e)
  then show ?thesis
    using flush_quiet_Err [of w s vs w' s' e] inv fl by (simp add: run_inv_def)
next
  case Panic
  then show ?thesis
    using flush_not_Panic [of w s vs] fl by simp
qed

lemma distinct_keys_set: "distinct_keys s \<Longrightarrow> distinct_keys (s\<lparr>vars := vars_set (vars s) v\<rparr>)"
  by (auto simp: distinct_keys_def vars_set_def same_var_def distinct_map inj_on_def)

lemma distinct_keys_delete: "distinct_keys s \<Longrightarrow> distinct_keys (s\<lparr>vars := vars_delete (vars s) n g\<rparr>)"
  by (auto simp: distinct_keys_def vars_delete_def distinct_map inj_on_def)

lemma set_vars_delete: "set (vars_delete vs n g) = {v \<in> set vs. \<not> same_var n g v}"
  by (simp add: vars_delete_def)

lemma length_vars_delete: "int (length vs) \<le> k \<Longrightarrow> int (length (vars_delete vs n g)) \<le> k"
  unfolding vars_delete_def by (meson length_filter_le of_nat_mono order_trans)

lemma store_step_inv:
  assumes spec: "safeio_spec sio" and step: "store_step sio st st'" and inv: "run_inv sio s0 st"
    and l: "resolve (lim s0) = lim s0"
  shows "run_inv sio s0 st'"
  using step
proof cases
  case (step_set w s v w' s' r)
  have "\<forall>u \<in> set (vars_set (vars s) v). valid_utf8 (vName u)"
    using step_set inv synced_names [OF spec] by (auto simp: vars_set_def run_inv_def)
  moreover note fl = step_set(3) [unfolded Set_var_flush]
  ultimately show ?thesis
    unfolding step_set(2) using step_set(5) inv [unfolded step_set(1)]
    by (intro flush_run_inv [OF spec _ fl] distinct_keys_set)
next
  case (step_delete w s n g w' s' r)
  have *: "\<forall>u \<in> set (vars_delete (vars s) n g). valid_utf8 (vName u)"
    "int (length (vars_delete (vars s) n g)) \<le> sint (MaxVariables (lim s))"
    using step_delete inv synced_names [OF spec]
    by (auto simp: set_vars_delete run_inv_def intro: length_vars_delete)
  show ?thesis
  proof (cases "\<exists>v \<in> set (vars s). same_var n g v")
    case True
    then have fl: "flush w s (vars_delete (vars s) n g) = (w', s', r)"
      using step_delete(3) by (simp add: Delete_flush)
    show ?thesis
      unfolding step_delete(2) using * inv [unfolded step_delete(1)]
      by (intro flush_run_inv [OF spec _ fl] distinct_keys_delete)
  next
    case False
    then show ?thesis
      using step_delete inv by (simp add: Delete_flush)
  qed
next
  case (step_reopen w s w' s')
  have "resolve (lim s) = lim s"
    using inv step_reopen l by (auto simp: run_inv_def)
  with step_reopen inv show ?thesis
    using synced_open [of w sio s "lim s"] by (simp add: run_inv_def)
qed

lemma open_image_count:
  assumes spec: "safeio_spec sio" and len: "length data + 64 \<le> 2 ^ 32"
    and op: "open_image sio p l data = Ok s" and nn: "0 \<le> sint (MaxVariables l)"
  shows "int (length (vars s)) \<le> sint (MaxVariables l)"
proof -
  have off: "unat (storeOff s) + 92 \<le> 2 ^ 32"
    using open_image_layout(3) [OF op] header_off_bounds(1) [of "fvWrapped s"] by simp
  show ?thesis
    using open_image_Ok(2) [OF op] nn
    by (auto simp: parseVariables_eq_walk [OF spec len off] limited_def split: if_splits)
qed

lemma synced_count:
  assumes spec: "safeio_spec sio" and syn: "synced sio w s" and ne: "vars s \<noteq> []"
  shows "int (length (vars s)) \<le> sint (MaxVariables (lim s))"
proof -
  obtain img where op: "open_image sio (path s) (lim s) img = Ok s" and len: "length img + 64 \<le> 2 ^ 32"
    using syn by (auto simp: synced_def)
  have off: "unat (storeOff s) + 92 \<le> 2 ^ 32"
    using open_image_layout(3) [OF op] header_off_bounds(1) [of "fvWrapped s"] by simp
  show ?thesis
    using open_image_Ok(2) [OF op] ne
    by (auto simp: parseVariables_eq_walk [OF spec len off] limited_def split: if_splits)
qed

text \<open>Limits under which every offset fits into 32 bits and the counts are not negative; the
  default limits are such.\<close>

definition sane_limits :: "Limits \<Rightarrow> bool" where
  "sane_limits l \<longleftrightarrow> sint (MaxFileSize (resolve l)) + 64 \<le> 2 ^ 32 \<and> 0 \<le> sint (MaxVariables (resolve l))"

lemma sane_defaults: "sane_limits \<lparr> MaxFileSize = 0, MaxVariables = 0 \<rparr>" "sane_limits default_limits"
  by (simp_all add: sane_limits_def resolve_def DefaultMaxFileSize_def DefaultMaxVariables_def)

lemma opened_synced:
  assumes q: "quiet w" and sane: "sane_limits l" and op: "OpenLimits sio w p l = (w', Ok s)"
  shows "w' = w" "synced sio w s" "path s = p" "lim s = resolve l"
proof -
  have mx: "sint (MaxFileSize (resolve l)) < 2 ^ 63 - 1"
    using sane by (simp add: sane_limits_def)
  have len: "length c + 64 \<le> 2 ^ 32" if "files w p = Some c" for c
    using OpenLimits_Ok_bound [OF q op that] sane by (simp add: sane_limits_def)
  from open_synced [OF q op len mx] show "w' = w" "synced sio w s" "path s = p" "lim s = resolve l"
    by simp_all
qed

lemma opened_run_inv:
  assumes spec: "safeio_spec sio" and q: "quiet w" and sane: "sane_limits l"
    and op: "OpenLimits sio w p l = (w', Ok s)"
  shows "run_inv sio s (w', s)"
proof -
  note o = opened_synced [OF q sane op]
  from o(2) obtain img where "open_image sio (path s) (lim s) img = Ok s" "length img + 64 \<le> 2 ^ 32"
    by (auto simp: synced_def)
  with open_image_count [OF spec] have "int (length (vars s)) \<le> sint (MaxVariables (lim s))"
    using o(4) sane by (simp add: sane_limits_def)
  then show ?thesis
    using o q by (auto simp: run_inv_def intro: exI [of _ "vars s"])
qed

lemma run_inv_steps:
  assumes "safeio_spec sio" "resolve (lim s0) = lim s0"
  shows "(store_step sio)\<^sup>*\<^sup>* st st' \<Longrightarrow> run_inv sio s0 st \<Longrightarrow> run_inv sio s0 st'"
  by (induction rule: rtranclp_induct) (auto intro: store_step_inv [OF assms(1) _ _ assms(2)])

lemma run_reopens:
  assumes "safeio_spec sio" and "quiet w0" and "sane_limits l" and "OpenLimits sio w0 p l = (w1, Ok s0)"
    and "(store_step sio)\<^sup>*\<^sup>* (w1, s0) (w, s)"
  shows "OpenLimits sio w p l = (w, Ok s) \<and> s0\<lparr>vars := vars s\<rparr> = s \<and> (distinct_keys s0 \<longrightarrow> distinct_keys s)"
proof -
  note o = opened_synced [OF assms(2-4)]
  have "run_inv sio s0 (w, s)"
    using run_inv_steps [OF assms(1) _ assms(5) opened_run_inv [OF assms(1-4)]] o(4) resolve_idem by simp
  then have inv: "quiet w" "synced sio w s" "distinct_keys s0 \<longrightarrow> distinct_keys s" and "\<exists>vs. s = s0\<lparr>vars := vs\<rparr>"
    by (simp_all add: run_inv_def)
  then obtain vs where s: "s = s0\<lparr>vars := vs\<rparr>"
    by blast
  with o have "resolve l = lim s" "path s = p"
    by simp_all
  with synced_open [OF inv(1,2)] inv(3) s show ?thesis
    by simp
qed

text \<open>Property C2. In a quiet system, in every state that a run of Set, Delete and reopen steps can
  reach from an opened store, operations that report an error included, the file opens to exactly the store in memory;
  path, limits, layout, offset and size are those of the opening; and when the opened store
  had no two variables with the same name and GUID, it never gets two. The Set steps have valid
  UTF-8 names and keep within MaxVariables.\<close>

theorem run_keeps_file_and_memory_equal:
  assumes "safeio_spec sio" and "quiet w0" and "sane_limits l" and "OpenLimits sio w0 p l = (w1, Ok s0)"
    and "(store_step sio)\<^sup>*\<^sup>* (w1, s0) (w, s)"
  shows "OpenLimits sio w p l = (w, Ok s) \<and> s0\<lparr>vars := vars s\<rparr> = s \<and> (distinct_keys s0 \<longrightarrow> distinct_keys s)"
  by (rule run_reopens [OF assms])

theorem run_keeps_file_and_memory_equal_witness:
  "\<exists>w s. (store_step counting_safeio)\<^sup>*\<^sup>* (demo_os, demo_store) (w, s) \<and> vars s = [demo_var] \<and>
     OpenLimits counting_safeio w ''v'' default_limits = (w, Ok s) \<and> distinct_keys s"
proof -
  obtain w where d: "Set_var demo_os demo_store demo_var = (w, demo_store\<lparr>vars := [demo_var]\<rparr>, Ok ())"
    using demo_set by blast
  have "store_step counting_safeio (demo_os, demo_store) (w, demo_store\<lparr>vars := [demo_var]\<rparr>)"
    using d by (rule step_set) (simp_all add: demo_var_def valid_utf8_ascii vars_set_def demo_store_def sint_defaults)
  then have run: "(store_step counting_safeio)\<^sup>*\<^sup>* (demo_os, demo_store) (w, demo_store\<lparr>vars := [demo_var]\<rparr>)"
    by (rule r_into_rtranclp)
  have "resolve default_limits = lim demo_store"
    by (simp add: demo_store_def resolve_def DefaultMaxFileSize_def DefaultMaxVariables_def)
  from synced_open [OF demo_synced this] have "OpenLimits counting_safeio demo_os ''v'' default_limits = (demo_os, Ok demo_store)"
    by (simp add: demo_store_def)
  from run_keeps_file_and_memory_equal [OF counting_safeio_spec demo_synced(1) sane_defaults(2) this run] run
  show ?thesis
    by (auto simp: distinct_keys_def demo_store_def intro!: exI [of _ w] exI [of _ "demo_store\<lparr>vars := [demo_var]\<rparr>"])
qed

subsection \<open>Reading back a write\<close>

text \<open>The demonstration store with one variable.\<close>

lemma demo_one:
  obtains w where "quiet w" "synced counting_safeio w (demo_store\<lparr>vars := [demo_var]\<rparr>)"
proof -
  obtain w where d: "Set_var demo_os demo_store demo_var = (w, demo_store\<lparr>vars := [demo_var]\<rparr>, Ok ())"
    using demo_set by blast
  have "vars_set (vars demo_store) demo_var = [demo_var]"
    by (simp add: vars_set_def demo_store_def)
  with synced_flush [OF counting_safeio_spec demo_synced _ _ d [unfolded Set_var_flush]] that show ?thesis
    by (simp add: demo_var_def valid_utf8_ascii demo_store_def sint_defaults)
qed

theorem Get_after_Set_witness:
  "\<exists>w' s'. Set_var demo_os demo_store demo_var = (w', s', Ok ()) \<and> Get s' ''Lang'' EFIGlobalVariableGUID = Ok demo_var"
proof -
  obtain w' s' where d: "Set_var demo_os demo_store demo_var = (w', s', Ok ())"
    using demo_set by blast
  from Get_after_Set [OF d, of "''Lang''" EFIGlobalVariableGUID] d show ?thesis
    by (simp add: demo_var_def)
qed

theorem Get_after_Delete_witness:
  "\<exists>w w' s'. Delete w (demo_store\<lparr>vars := [demo_var]\<rparr>) ''Lang'' EFIGlobalVariableGUID = (w', s', Ok ()) \<and>
     (\<exists>e. Get s' ''Lang'' EFIGlobalVariableGUID = Err e \<and> errors_Is e ErrNotExist)"
proof -
  let ?s = "demo_store\<lparr>vars := [demo_var]\<rparr>"
  obtain w where w: "quiet w" "synced counting_safeio w ?s"
    by (rule demo_one)
  obtain img where b: "backed w ?s img"
    using synced_backed [OF w(2)] by blast
  have "Delete w ?s ''Lang'' EFIGlobalVariableGUID = flush w ?s []"
    by (simp add: Delete_flush vars_delete_def same_var_def demo_var_def)
  then have "\<exists>w' s'. Delete w ?s ''Lang'' EFIGlobalVariableGUID = (w', s', Ok ())"
    by (simp add: flush_eq [OF w(1) b] serializeVars_def StoreHeaderSize_def) (simp add: demo_store_def)
  then obtain w' s' where d: "Delete w ?s ''Lang'' EFIGlobalVariableGUID = (w', s', Ok ())"
    by blast
  from Get_after_Delete [OF d] d show ?thesis by blast
qed

text \<open>A store opened with a limit of one variable, holding one.\<close>

definition tight_limits :: Limits where
  "tight_limits = \<lparr> MaxFileSize = DefaultMaxFileSize, MaxVariables = 1 \<rparr>"

lemma tight_open: "open_image counting_safeio ''v'' tight_limits
    ([] @ store_header EFIVariableGUID (of_nat 4096) @ replicate (4096 - 28) 0xFF) = Ok (demo_store\<lparr>lim := tight_limits\<rparr>)"
  by (subst open_formatted [OF counting_safeio_spec, where fv = False and a = False and n = "4096 - 28"],
      simp add: header_off_def, simp add: detectFvWrap_headers, simp add: store_flavors, simp, simp,
      simp add: tight_limits_def, simp add: header_off_def demo_store_def)

theorem Set_over_limit_unreadable_witness:
  "\<exists>w w' e. Set_var w (demo_store\<lparr>lim := tight_limits, vars := [demo_var]\<rparr>) (demo_var\<lparr>vName := ''Ling''\<rparr>) =
       (w', demo_store\<lparr>lim := tight_limits, vars := [demo_var, demo_var\<lparr>vName := ''Ling''\<rparr>]\<rparr>, Ok ()) \<and>
     OpenLimits counting_safeio w' ''v'' tight_limits = (w', Err e) \<and> errors_Is e ErrTooLarge"
proof -
  let ?t = "demo_store\<lparr>lim := tight_limits\<rparr>"
  let ?s = "?t\<lparr>vars := [demo_var]\<rparr>"
  let ?u = "demo_var\<lparr>vName := ''Ling''\<rparr>"
  have img: "files demo_os ''v'' = Some ([] @ store_header EFIVariableGUID (of_nat 4096) @ replicate (4096 - 28) 0xFF)"
    by (simp add: demo_os_def)
  have "open_image counting_safeio ''v'' tight_limits
      ([] @ store_header EFIVariableGUID (of_nat 4096) @ replicate (4096 - 28) 0xFF) = Ok ?t"
    by (rule tight_open)
  with img have syn0: "synced counting_safeio demo_os ?t"
    by (simp add: synced_def) (simp add: demo_store_def tight_limits_def sint_defaults)
  have one: "vars_set (vars ?t) demo_var = [demo_var]"
    by (simp add: vars_set_def demo_store_def)
  have two: "vars_set (vars ?s) ?u = [demo_var, ?u]"
    by (simp add: vars_set_def same_var_def demo_var_def)
  have len2: "length (serializeVars [demo_var, ?u] False) = 96"
    using demo_length [of False]
    by (simp add: serializeVars_def length_encodeVariable raw_size_def demo_var_def EncodeUTF16LE_def
        runes_of_ascii utf16_Encode_def utf16_units_def scalar_def le16_bytes_def hdr_size_def nv_consts align4_def)
  have fits: "unat (storeSize demo_store) = 4096" "\<not> authVars demo_store"
    by (simp_all add: demo_store_def)
  obtain img0 where b0: "backed demo_os ?t img0"
    using synced_backed [OF syn0] by blast
  obtain w where fl: "flush demo_os ?t [demo_var] = (w, ?s, Ok ())"
    using fits demo_length [of False] by (simp add: flush_eq [OF demo_synced(1) b0] StoreHeaderSize_def)
  have w: "synced counting_safeio w ?s" "quiet w"
    using synced_flush [OF counting_safeio_spec demo_synced(1) syn0 _ _ fl]
    by (simp_all add: demo_var_def valid_utf8_ascii tight_limits_def)
  have fit: "StoreHeaderSize + length (serializeVars (vars_set (vars ?s) ?u) (authVars ?s)) \<le> unat (storeSize ?s)"
    unfolding two using fits len2 by (simp add: StoreHeaderSize_def)
  have "resolve tight_limits = lim ?s" "int (length (vars_set (vars ?s) ?u)) > sint (MaxVariables (lim ?s))"
    using two by (simp_all add: tight_limits_def resolve_def DefaultMaxFileSize_def)
  from Set_over_limit_unreadable [OF counting_safeio_spec w(2,1) this(1) fit this(2)] obtain w' e
    where "Set_var w ?s ?u = (w', ?s\<lparr>vars := [demo_var, ?u]\<rparr>, Ok ())"
      "OpenLimits counting_safeio w' (path ?s) tight_limits = (w', Err e)" "errors_Is e ErrTooLarge"
    unfolding two by blast
  then show ?thesis
    by (intro exI [of _ w] exI [of _ w'] exI [of _ e]) (simp add: demo_store_def)
qed

subsection \<open>A write that fails\<close>

lemma readStoreFile_no_fault:
  assumes "rscript w = []" "files w p = Some c" "int (length c) \<le> sint mx" "sint mx < 2 ^ 63 - 1"
  shows "readStoreFile w p mx = (w, Ok c)"
  using assms by (simp add: readStoreFile_def readStoreFile_run_read open_file_def next_read_def)

text \<open>Property C28. A write that fails leaves memory ahead of the file: when os.WriteFile fails, Set reports the
  error, but the list in memory is the new one and Get returns the new variable, while the file is
  untouched or holds a prefix of the new image.\<close>

theorem failed_write_keeps_new_list:
  assumes "rscript w = []" and "wscript w = f # fs" and "f = WrOpenErr \<or> f = WrPartial k" and "backed w s img"
    and "StoreHeaderSize + length (serializeVars (vars_set (vars s) v) (authVars s)) \<le> unat (storeSize s)"
  shows "\<exists>w' e. Set_var w s v = (w', s\<lparr>vars := vars_set (vars s) v\<rparr>, Err e) \<and>
    Get (s\<lparr>vars := vars_set (vars s) v\<rparr>) (vName v) (vGUID v) = Ok v \<and>
    files w' = (if f = WrOpenErr then files w else (files w)(path s \<mapsto> take k (rebuilt s img (vars_set (vars s) v))))"
proof -
  have "readStoreFile w (path s) (MaxFileSize (lim s)) = (w, Ok img)"
    using assms(1,4) by (intro readStoreFile_no_fault) (simp_all add: backed_def)
  moreover have "Get (s\<lparr>vars := vars_set (vars s) v\<rparr>) (vName v) (vGUID v) = Ok v"
    by (simp add: Get_def vars_set_def get_loop_set)
  ultimately show ?thesis
    using assms(2-5)
    by (auto simp: Set_var_flush flush_def buildStore_eq Let_def rebuilt_def WriteFile_os_def next_write_def backed_def)
qed

theorem failed_write_keeps_new_list_witness:
  "\<exists>w' e. Set_var (demo_os\<lparr>wscript := [WrOpenErr]\<rparr>) demo_store demo_var = (w', demo_store\<lparr>vars := [demo_var]\<rparr>, Err e) \<and>
     files w' = files demo_os"
proof -
  obtain img where "backed demo_os demo_store img"
    using synced_backed [OF demo_synced(2)] by blast
  then have b: "backed (demo_os\<lparr>wscript := [WrOpenErr]\<rparr>) demo_store img"
    by (simp add: backed_def)
  have r: "rscript (demo_os\<lparr>wscript := [WrOpenErr]\<rparr>) = []"
    using demo_synced(1) by (simp add: quiet_def)
  have vs: "vars_set (vars demo_store) demo_var = [demo_var]"
    by (simp add: vars_set_def demo_store_def)
  have "StoreHeaderSize + length (serializeVars (vars_set (vars demo_store) demo_var) (authVars demo_store)) \<le> unat (storeSize demo_store)"
    unfolding vs demo_length by (simp add: demo_store_def StoreHeaderSize_def)
  from failed_write_keeps_new_list [OF r _ _ b this, of WrOpenErr "[]"] show ?thesis
    by (auto simp: vs)
qed


end
