(* ===== verification/Fs_Adapter.thy ===== *)
theory Fs_Adapter
  imports Store_Runs
begin

text \<open>
  The generic filesystem surface of a store (filesystem.go): variables of one GUID namespace
  as the files of a flat directory. The constructors \<open>NewDirEntry\<close> and \<open>NewStat\<close> belong to the
  third-party module \<open>go-filesystems/interface\<close>; they are the parameter \<open>fs\<close>. The locale
  \<open>flat_fs\<close> states what a client of the surface may rely on; the adapter interprets it.
\<close>

definition default_attrs :: Attributes where
  "default_attrs = AttrNonVolatile OR AttrBootServiceAccess OR AttrRuntimeAccess"


definition ReadFile :: "store \<Rightarrow> string \<Rightarrow> bytes res" where
  "ReadFile s p =
     bindR (wrap_err ''uefi: ReadFile %q: %w'' (Get s p DefaultNamespaceGUID)) (\<lambda>v.
     Ok (copy_bytes (make_bytes (length (vData v))) (vData v)))"

definition WriteFile_fs :: "os \<Rightarrow> store \<Rightarrow> string \<Rightarrow> bytes \<Rightarrow> os \<times> store \<times> unit res" where
  "WriteFile_fs w s p d =
     Set_var w s \<lparr> vName = p, vGUID = DefaultNamespaceGUID, vAttributes = default_attrs, vData = d \<rparr>"

definition DeleteFile :: "os \<Rightarrow> store \<Rightarrow> string \<Rightarrow> os \<times> store \<times> unit res" where
  "DeleteFile w s p = Delete w s p DefaultNamespaceGUID"






text \<open>
  \<open>Rename\<close> drops the result of its \<open>Delete\<close>; a panic would still escape. Its message has the
  arrow U+2192, here in UTF-8.
\<close>

definition arrow :: string where
  "arrow = [CHR 0xE2, CHR 0x86, CHR 0x92]"

definition Rename :: "os \<Rightarrow> store \<Rightarrow> string \<Rightarrow> string \<Rightarrow> os \<times> store \<times> unit res" where
  "Rename w s oldPath newPath =
     (case wrap_err ''uefi: Rename %q: %w'' (Get s oldPath DefaultNamespaceGUID) of
        Panic \<Rightarrow> (w, s, Panic)
      | Err e \<Rightarrow> (w, s, Err e)
      | Ok v \<Rightarrow>
          (case Set_var w s (v\<lparr>vName := newPath\<rparr>) of
             (w1, s1, Panic) \<Rightarrow> (w1, s1, Panic)
           | (w1, s1, Err e) \<Rightarrow> (w1, s1, Err (Wrap (''uefi: Rename %q '' @ arrow @ '' %q: %w'') e))
           | (w1, s1, Ok _) \<Rightarrow>
               (case Delete w1 s1 oldPath DefaultNamespaceGUID of (w2, s2, r) \<Rightarrow>
                (w2, s2, if r = Panic then Panic else Ok ()))))"

subsection \<open>The contract of a flat file system\<close>

locale flat_fs =
  fixes readf :: "'s \<Rightarrow> string \<Rightarrow> bytes res"
    and writef :: "'s \<Rightarrow> string \<Rightarrow> bytes \<Rightarrow> 's \<times> unit res"
    and deletef :: "'s \<Rightarrow> string \<Rightarrow> 's \<times> unit res"
  assumes read_not_panic: "readf st p \<noteq> Panic"
    and read_missing: "readf st p = Err e \<Longrightarrow> errors_Is e ErrNotExist"
    and write_read: "writef st p d = (st', Ok ()) \<Longrightarrow> readf st' q = (if q = p then Ok d else readf st q)"
    and delete_read: "deletef st p = (st', Ok ()) \<Longrightarrow>
      (\<exists>d. readf st p = Ok d) \<and> (\<exists>e. readf st' p = Err e) \<and> (\<forall>q. q \<noteq> p \<longrightarrow> readf st' q = readf st q)"
    and delete_missing: "readf st p = Err e \<Longrightarrow> \<exists>e'. deletef st p = (st, Err e') \<and> errors_Is e' ErrNotExist"
begin

text \<open>The contents of the directory, as a map from names to file contents.\<close>

definition contents :: "'s \<Rightarrow> string \<Rightarrow> bytes option" where
  "contents st p = (case readf st p of Ok d \<Rightarrow> Some d | _ \<Rightarrow> None)"

lemma contents_write: "writef st p d = (st', Ok ()) \<Longrightarrow> contents st' = (contents st)(p \<mapsto> d)"
  by (rule ext) (simp add: contents_def write_read)

lemma contents_delete: "deletef st p = (st', Ok ()) \<Longrightarrow> contents st' = (contents st)(p := None)"
proof (rule ext)
  fix q
  assume "deletef st p = (st', Ok ())"
  from delete_read [OF this] show "contents st' q = ((contents st)(p := None)) q"
    by (cases "q = p") (auto simp: contents_def)
qed

lemma delete_succeeds_present: "deletef st p = (st', Ok ()) \<Longrightarrow> p \<in> dom (contents st)"
  using delete_read [of st p st'] by (auto simp: contents_def)

lemma read_contents: "readf st p = Ok d \<longleftrightarrow> contents st p = Some d"
  by (simp add: contents_def split: res.split)

end

text \<open>The adapter's operations over the pair of system and store.\<close>

definition fs_read :: "os \<times> store \<Rightarrow> string \<Rightarrow> bytes res" where
  "fs_read st p = ReadFile (snd st) p"

definition fs_write :: "os \<times> store \<Rightarrow> string \<Rightarrow> bytes \<Rightarrow> (os \<times> store) \<times> unit res" where
  "fs_write st p d = (case WriteFile_fs (fst st) (snd st) p d of (w', s', r) \<Rightarrow> ((w', s'), r))"

definition fs_delete :: "os \<times> store \<Rightarrow> string \<Rightarrow> (os \<times> store) \<times> unit res" where
  "fs_delete st p = (case DeleteFile (fst st) (snd st) p of (w', s', r) \<Rightarrow> ((w', s'), r))"

lemma copy_all: "copy_bytes (make_bytes (length d)) d = d"
  by (rule copy_bytes_same) simp

lemma fs_read_lookup:
  "fs_read st p =
     (case vs_lookup nv_store st p DefaultNamespaceGUID of
        Some v \<Rightarrow> Ok (vData v)
      | None \<Rightarrow> Err (Wrap ''uefi: ReadFile %q: %w'' (errNoVariable p)))"
proof -
  obtain w s where st: "st = (w, s)"
    by (cases st)
  show ?thesis
    by (simp add: st fs_read_def ReadFile_def Get_def vs_lookup_def copy_all get_loop_eq split: option.split)
qed

lemma fs_write_set:
  "fs_write st p d =
     vsSet nv_store st \<lparr> vName = p, vGUID = DefaultNamespaceGUID, vAttributes = default_attrs, vData = d \<rparr>"
  by (cases st) (simp add: fs_write_def WriteFile_fs_def)

lemma fs_delete_vs: "fs_delete st p = vsDelete nv_store st p DefaultNamespaceGUID"
  by (cases st) (simp add: fs_delete_def DeleteFile_def)

lemma nv_delete_present:
  "vsDelete nv_store st n g = (st', Ok ()) \<Longrightarrow> \<exists>v. vs_lookup nv_store st n g = Some v"
  using nv.delete_missing [of st n g] by (cases "vs_lookup nv_store st n g") auto

interpretation uefi_fs: flat_fs fs_read fs_write fs_delete
proof (unfold_locales, goal_cases)
  case (1 st p)
  then show ?case
    by (simp add: fs_read_lookup split: option.split)
next
  case (2 st p e)
  then show ?case
    by (auto simp: fs_read_lookup errNoVariable_def split: option.splits)
next
  case (3 st p d st' q)
  from nv.set_lookup [OF 3 [unfolded fs_write_set]] show ?case
    by (simp add: fs_read_lookup)
next
  case (4 st p st')
  note d = 4 [unfolded fs_delete_vs]
  from nv.delete_lookup [OF d] nv_delete_present [OF d] show ?case
    by (auto simp: fs_read_lookup)
next
  case (5 st p e)
  then have "vs_lookup nv_store st p DefaultNamespaceGUID = None"
    by (auto simp: fs_read_lookup split: option.splits)
  from nv.delete_missing [OF this] show ?case
    by (simp add: fs_delete_vs)
qed

subsection \<open>Properties of the surface\<close>

text \<open>Write then read: after a WriteFile that reported success, ReadFile of that
  path returns the written bytes and ReadFile of every other path what it returned before.\<close>

theorem WriteFile_ReadFile:
  assumes "WriteFile_fs w s p d = (w', s', Ok ())"
  shows "ReadFile s' q = (if q = p then Ok d else ReadFile s q)"
  using uefi_fs.write_read [of "(w, s)" p d "(w', s')" q] assms by (simp add: fs_write_def fs_read_def)


lemma serialize_filter: "length (serializeVars (filter P vs) a) \<le> length (serializeVars vs a)"
  by (induction vs) (simp_all add: serializeVars_def)

text \<open>Deleting never needs more room, so in a quiet system it cannot fail for lack of space.\<close>

lemma Delete_after_fit:
  assumes q: "quiet w" and b: "backed w s img"
    and fit: "StoreHeaderSize + length (serializeVars (vars s) (authVars s)) \<le> unat (storeSize s)"
    and pr: "\<exists>v \<in> set (vars s). same_var n g v"
  obtains w' where "Delete w s n g = (w', s\<lparr>vars := vars_delete (vars s) n g\<rparr>, Ok ())"
    "\<forall>p. p \<noteq> path s \<longrightarrow> files w' p = files w p"
proof -
  have "StoreHeaderSize + length (serializeVars (vars_delete (vars s) n g) (authVars s)) \<le> unat (storeSize s)"
    using fit serialize_filter [of "\<lambda>e. \<not> same_var n g e" "vars s" "authVars s"]
    by (simp add: vars_delete_def)
  then show ?thesis
    using pr that by (simp add: Delete_flush flush_eq [OF q b])
qed

lemma Rename_quiet:
  assumes q: "quiet w" and b: "backed w s img" and get: "Get s old DefaultNamespaceGUID = Ok v"
    and set: "Set_var w s (v\<lparr>vName := new\<rparr>) = (w1, s1, Ok ())"
  obtains w' where "Rename w s old new =
      (w', s\<lparr>vars := vars_delete (vars_set (vars s) (v\<lparr>vName := new\<rparr>)) old DefaultNamespaceGUID\<rparr>, Ok ())"
    "\<forall>p. p \<noteq> path s \<longrightarrow> files w' p = files w p"
proof -
  let ?v = "v\<lparr>vName := new\<rparr>"
  have v: "v \<in> set (vars s)" "vName v = old" "vGUID v = DefaultNamespaceGUID"
    using get get_loop_Ok [of "vars s" old DefaultNamespaceGUID v] by (simp_all add: Get_def same_var_def)
  note fl = set [unfolded Set_var_flush]
  note fb = flush_backed [OF q b fl]
  from fb(2) obtain img' where b': "backed w1 s1 img'" by blast
  have pr: "\<exists>u \<in> set (vars s1). same_var old DefaultNamespaceGUID u"
    using v by (auto simp: fb(3) vars_set_def same_var_def)
  have fit: "StoreHeaderSize + length (serializeVars (vars s1) (authVars s1)) \<le> unat (storeSize s1)"
    using fb(3,4) by simp
  from Delete_after_fit [OF fb(1) b' fit pr] obtain w2
    where w2: "Delete w1 s1 old DefaultNamespaceGUID = (w2, s1\<lparr>vars := vars_delete (vars s1) old DefaultNamespaceGUID\<rparr>, Ok ())"
      "\<forall>p. p \<noteq> path s1 \<longrightarrow> files w2 p = files w1 p"
    by blast
  have "\<forall>p. p \<noteq> path s \<longrightarrow> files w1 p = files w p"
    using fl [unfolded flush_eq [OF q b]] by (auto split: if_splits)
  with w2 fb(3) show ?thesis
    by (intro that [of w2]) (simp_all add: Rename_def get set)
qed

lemma get_vars_set:
  "get_loop (vars_set vs v) n g = (if n = vName v \<and> g = vGUID v then Ok v else get_loop vs n g)"
  by (simp add: vars_set_def get_loop_set)

lemma Get_renamed:
  "Get (s\<lparr>vars := vars_delete (vars_set (vars s) v) old g\<rparr>) n g' =
     (if n = old \<and> g' = g then Err (errNoVariable old)
      else if n = vName v \<and> g' = vGUID v then Ok v else Get s n g')"
  by (simp add: Get_def vars_delete_def get_loop_filter get_vars_set)

lemma Rename_Ok:
  assumes q: "quiet w" and b: "backed w s img" and ok: "Rename w s old new = (w', s', Ok ())"
  obtains v where "Get s old DefaultNamespaceGUID = Ok v"
    "s' = s\<lparr>vars := vars_delete (vars_set (vars s) (v\<lparr>vName := new\<rparr>)) old DefaultNamespaceGUID\<rparr>"
    "\<forall>p. p \<noteq> path s \<longrightarrow> files w' p = files w p"
proof -
  obtain v where get: "Get s old DefaultNamespaceGUID = Ok v"
    using ok by (auto simp: Rename_def wrap_err_def split: res.splits)
  obtain w1 s1 r where set: "Set_var w s (v\<lparr>vName := new\<rparr>) = (w1, s1, r)"
    by (cases "Set_var w s (v\<lparr>vName := new\<rparr>)")
  then have "r = Ok ()"
    using ok get by (simp add: Rename_def split: res.splits)
  from Rename_quiet [OF q b get set [unfolded this]] ok that [OF get] show ?thesis
    by auto
qed

text \<open>Property C33. Rename to another name, in a quiet system: on success the variable is found
  under the new name with the same attributes and data, the old name is gone, every other
  variable is as before, and no other file changes.\<close>

theorem Rename_moves:
  assumes "quiet w" and "synced sio w s" and "old \<noteq> new" and "Rename w s old new = (w', s', Ok ())"
  shows "\<exists>v. Get s old DefaultNamespaceGUID = Ok v \<and>
    Get s' new DefaultNamespaceGUID = Ok (v\<lparr>vName := new\<rparr>) \<and>
    Get s' old DefaultNamespaceGUID = Err (errNoVariable old) \<and>
    (\<forall>n g. g \<noteq> DefaultNamespaceGUID \<or> n \<noteq> old \<and> n \<noteq> new \<longrightarrow> Get s' n g = Get s n g) \<and>
    (\<forall>p. p \<noteq> path s \<longrightarrow> files w' p = files w p)"
proof -
  obtain img where b: "backed w s img"
    using synced_backed [OF assms(2)] by blast
  from Rename_Ok [OF assms(1) b assms(4)] obtain v where v: "Get s old DefaultNamespaceGUID = Ok v"
    "s' = s\<lparr>vars := vars_delete (vars_set (vars s) (v\<lparr>vName := new\<rparr>)) old DefaultNamespaceGUID\<rparr>"
    "\<forall>p. p \<noteq> path s \<longrightarrow> files w' p = files w p"
    by blast
  have "vGUID v = DefaultNamespaceGUID"
    using get_loop_Ok [of "vars s" old DefaultNamespaceGUID v] v(1) by (simp add: Get_def same_var_def)
  with v assms(3) show ?thesis
    by (auto simp: Get_renamed)
qed

text \<open>Writing a variable of the list again never needs more room or more records.\<close>

lemma serialize_filter_less:
  "v \<in> set vs \<Longrightarrow> \<not> P v \<Longrightarrow>
     length (serializeVars (filter P vs) a) + length (encodeVariable v a) \<le> length (serializeVars vs a)"
proof (induction vs)
  case (Cons u vs)
  then show ?case
    using serialize_filter [of P vs a] by (auto simp: serializeVars_def)
qed simp

lemma vars_set_again:
  assumes "v \<in> set vs"
  shows "length (serializeVars (vars_set vs v) a) \<le> length (serializeVars vs a)"
    "length (vars_set vs v) \<le> length vs"
proof -
  have v: "\<not> \<not> same_var (vName v) (vGUID v) v"
    by (simp add: same_var_def)
  show "length (serializeVars (vars_set vs v) a) \<le> length (serializeVars vs a)"
    using serialize_filter_less [OF assms, of "\<lambda>e. \<not> same_var (vName v) (vGUID v) e", OF v]
    by (simp add: vars_set_def serializeVars_def)
  show "length (vars_set vs v) \<le> length vs"
    using length_filter_less [OF assms, of "\<lambda>e. \<not> same_var (vName v) (vGUID v) e", OF v] by (simp add: vars_set_def)
qed

lemma vars_delete_set: "vars_delete (vars_set vs v) (vName v) (vGUID v) = vars_delete vs (vName v) (vGUID v)"
  by (simp add: vars_delete_def vars_set_def same_var_def)

text \<open>
  A Set of a variable that is there, followed by a Delete of it: both succeed, and the file
  reopens without the variable.
\<close>

lemma Set_Delete_again:
  assumes spec: "safeio_spec sio" and q: "quiet w" and syn: "synced sio w s" and l: "resolve l = lim s"
    and v: "v \<in> set (vars s)"
    and fit: "StoreHeaderSize + length (serializeVars (vars s) (authVars s)) \<le> unat (storeSize s)"
  obtains w1 s1 w2 where "Set_var w s v = (w1, s1, Ok ())"
    "Delete w1 s1 (vName v) (vGUID v) = (w2, s\<lparr>vars := vars_delete (vars s) (vName v) (vGUID v)\<rparr>, Ok ())"
    "OpenLimits sio w2 (path s) l = (w2, Ok (s\<lparr>vars := vars_delete (vars s) (vName v) (vGUID v)\<rparr>))"
proof -
  let ?s1 = "s\<lparr>vars := vars_set (vars s) v\<rparr>"
  let ?s2 = "s\<lparr>vars := vars_delete (vars s) (vName v) (vGUID v)\<rparr>"
  obtain img where b: "backed w s img"
    using synced_backed [OF syn] by blast
  note room = order_trans [OF add_left_mono [OF vars_set_again(1) [OF v]] fit]
  obtain w1 where set: "flush w s (vars_set (vars s) v) = (w1, ?s1, Ok ())"
    using room by (simp add: flush_eq [OF q b])
  have count: "int (length (vars_set (vars s) v)) \<le> sint (MaxVariables (lim s))"
    using vars_set_again(2) [OF v] synced_count [OF spec syn] v by fastforce
  have names: "\<forall>u \<in> set (vars_set (vars s) v). valid_utf8 (vName u)"
    using synced_names [OF spec syn] v by (auto simp: vars_set_def)
  note s1 = synced_flush [OF spec q syn names count set]
  obtain img1 where b1: "backed w1 ?s1 img1"
    using synced_backed [OF s1(1)] by blast
  have "\<exists>u \<in> set (vars ?s1). same_var (vName v) (vGUID v) u"
    by (simp add: vars_set_def same_var_def)
  from Delete_after_fit [OF s1(2) b1 _ this] room obtain w2
    where del: "Delete w1 ?s1 (vName v) (vGUID v) = (w2, ?s2, Ok ())"
    by (auto simp: vars_delete_set)
  then have fl: "flush w1 ?s1 (vars_delete (vars ?s1) (vName v) (vGUID v)) = (w2, ?s2, Ok ())"
    by (simp add: Delete_flush split: if_splits)
  have "int (length (vars_delete (vars ?s1) (vName v) (vGUID v))) \<le> sint (MaxVariables (lim s))"
    using count by (auto intro: length_vars_delete)
  with flush_reopen_cases [OF spec s1(2,1) fl, of l] l stored_vars_delete [OF spec syn]
  have "OpenLimits sio w2 (path s) l = (w2, Ok ?s2)"
    by (simp add: vars_delete_set)
  with set del that show ?thesis
    by (simp add: Set_var_flush)
qed

text \<open>Property C40. Rename of a variable to its own name loses it. In a quiet system, for a path
  that ReadFile finds in a store whose records fit its region, as they do after every successful
  write, Rename p p reports success, the list in memory is the old one without the variable,
  ReadFile then answers ErrNotExist, and the file reopens without it: the record that Set wrote
  is the one that Delete removes.\<close>

theorem Rename_to_itself_deletes:
  assumes "safeio_spec sio" and "quiet w" and "synced sio w s" and "resolve l = lim s" and "ReadFile s p = Ok d"
    and "StoreHeaderSize + length (serializeVars (vars s) (authVars s)) \<le> unat (storeSize s)"
  shows "\<exists>w' s' e. Rename w s p p = (w', s', Ok ()) \<and> s' = s\<lparr>vars := vars_delete (vars s) p DefaultNamespaceGUID\<rparr> \<and>
    ReadFile s' p = Err e \<and> errors_Is e ErrNotExist \<and> OpenLimits sio w' (path s) l = (w', Ok s')"
proof -
  obtain v where get: "Get s p DefaultNamespaceGUID = Ok v"
    using assms(5) by (auto simp: ReadFile_def wrap_err_def split: res.splits)
  then have v: "v \<in> set (vars s)" "vName v = p" "vGUID v = DefaultNamespaceGUID"
    using get_loop_Ok [of "vars s" p DefaultNamespaceGUID v] by (simp_all add: Get_def same_var_def)
  have same: "v\<lparr>vName := p\<rparr> = v"
    using v(2) by (metis Variable.surjective Variable.update_convs(1))
  from Set_Delete_again [OF assms(1-4) v(1) assms(6)] obtain w1 s1 w2 where w2: "Set_var w s v = (w1, s1, Ok ())"
    "Delete w1 s1 p DefaultNamespaceGUID = (w2, s\<lparr>vars := vars_delete (vars s) p DefaultNamespaceGUID\<rparr>, Ok ())"
    "OpenLimits sio w2 (path s) l = (w2, Ok (s\<lparr>vars := vars_delete (vars s) p DefaultNamespaceGUID\<rparr>))"
    unfolding v(2,3) by blast
  have "Get (s\<lparr>vars := vars_delete (vars s) p DefaultNamespaceGUID\<rparr>) p DefaultNamespaceGUID = Err (errNoVariable p)"
    by (simp add: Get_def vars_delete_def get_loop_filter)
  with w2 get show ?thesis
    by (simp add: Rename_def same ReadFile_def errNoVariable_def)
qed

subsection \<open>Witnesses\<close>

lemma demo_var_namespace: "vGUID demo_var = DefaultNamespaceGUID" "vName demo_var = ''Lang''"
  by (simp_all add: demo_var_def DefaultNamespaceGUID_def EFIGlobalVariableGUID_def)

lemma demo_rename:
  assumes "quiet w" "synced counting_safeio w (demo_store\<lparr>vars := [demo_var]\<rparr>)"
  shows "\<exists>w' s'. Rename w (demo_store\<lparr>vars := [demo_var]\<rparr>) ''Lang'' ''Ling'' = (w', s', Ok ())"
proof -
  let ?s = "demo_store\<lparr>vars := [demo_var]\<rparr>"
  let ?v = "demo_var\<lparr>vName := ''Ling''\<rparr>"
  obtain img where b: "backed w ?s img"
    using synced_backed [OF assms(2)] by blast
  have get: "Get ?s ''Lang'' DefaultNamespaceGUID = Ok demo_var"
    using demo_var_namespace by (simp add: Get_def same_var_def)
  have len: "length (serializeVars (vars_set [demo_var] ?v) False) \<le> 100"
    using demo_length [of False] demo_utf16
    by (auto simp: vars_set_def serializeVars_def length_encodeVariable raw_size_def demo_var_def same_var_def
        EncodeUTF16LE_def runes_of_ascii utf16_Encode_def utf16_units_def scalar_def le16_bytes_def hdr_size_def
        nv_consts align4_def)
  have "\<exists>w1. Set_var w ?s ?v = (w1, ?s\<lparr>vars := vars_set [demo_var] ?v\<rparr>, Ok ())"
    using len by (simp add: Set_var_flush flush_eq [OF assms(1) b] StoreHeaderSize_def) (simp add: demo_store_def)
  with Rename_quiet [OF assms(1) b get] show ?thesis
    by blast
qed

theorem WriteFile_ReadFile_witness:
  "\<exists>w' s'. WriteFile_fs demo_os demo_store ''Lang'' [1, 2, 3] = (w', s', Ok ()) \<and> ReadFile s' ''Lang'' = Ok [1, 2, 3]"
proof -
  have "\<lparr> vName = ''Lang'', vGUID = DefaultNamespaceGUID, vAttributes = default_attrs, vData = [1, 2, 3] \<rparr> = demo_var"
    by (simp add: demo_var_def DefaultNamespaceGUID_def EFIGlobalVariableGUID_def default_attrs_def
        AttrNonVolatile_def AttrBootServiceAccess_def AttrRuntimeAccess_def)
  with demo_set obtain w' s' where d: "WriteFile_fs demo_os demo_store ''Lang'' [1, 2, 3] = (w', s', Ok ())"
    by (auto simp: WriteFile_fs_def)
  with WriteFile_ReadFile [OF d] show ?thesis by auto
qed



theorem Rename_moves_witness:
  "\<exists>w w' s'. Rename w (demo_store\<lparr>vars := [demo_var]\<rparr>) ''Lang'' ''Ling'' = (w', s', Ok ()) \<and>
     Get s' ''Ling'' DefaultNamespaceGUID = Ok (demo_var\<lparr>vName := ''Ling''\<rparr>)"
proof -
  obtain w where w: "quiet w" "synced counting_safeio w (demo_store\<lparr>vars := [demo_var]\<rparr>)"
    by (rule demo_one)
  then obtain w' s' where r: "Rename w (demo_store\<lparr>vars := [demo_var]\<rparr>) ''Lang'' ''Ling'' = (w', s', Ok ())"
    using demo_rename by blast
  moreover have "Get (demo_store\<lparr>vars := [demo_var]\<rparr>) ''Lang'' DefaultNamespaceGUID = Ok demo_var"
    using demo_var_namespace by (simp add: Get_def same_var_def)
  ultimately show ?thesis
    using Rename_moves [OF w _ r] by auto
qed

theorem Rename_to_itself_deletes_witness:
  "\<exists>w w' e. Rename w (demo_store\<lparr>vars := [demo_var]\<rparr>) ''Lang'' ''Lang'' = (w', demo_store, Ok ()) \<and>
     ReadFile demo_store ''Lang'' = Err e \<and> errors_Is e ErrNotExist \<and>
     OpenLimits counting_safeio w' ''v'' default_limits = (w', Ok demo_store)"
proof -
  let ?s = "demo_store\<lparr>vars := [demo_var]\<rparr>"
  obtain w where w: "quiet w" "synced counting_safeio w ?s"
    by (rule demo_one)
  have l: "resolve default_limits = lim ?s"
    by (simp add: demo_store_def resolve_def DefaultMaxFileSize_def DefaultMaxVariables_def)
  have rd: "ReadFile ?s ''Lang'' = Ok (vData demo_var)"
    using demo_var_namespace by (simp add: ReadFile_def Get_def same_var_def copy_all)
  have fit: "StoreHeaderSize + length (serializeVars (vars ?s) (authVars ?s)) \<le> unat (storeSize ?s)"
    using demo_length by (simp add: StoreHeaderSize_def) (simp add: demo_store_def)
  have gone: "?s\<lparr>vars := vars_delete (vars ?s) ''Lang'' DefaultNamespaceGUID\<rparr> = demo_store"
    using demo_var_namespace by (simp add: vars_delete_def same_var_def) (simp add: demo_store_def)
  have "path ?s = ''v''"
    by (simp add: demo_store_def)
  with Rename_to_itself_deletes [OF counting_safeio_spec w l rd fit] show ?thesis
    unfolding gone by metis
qed

end
