(* ===== verification/Boot_Vars.thy ===== *)
theory Boot_Vars
  imports Load_Option Fs_Adapter
begin

text \<open>
  The boot manager's variables (bootvars.go): typed accessors over any \<open>VariableStore\<close> in the
  global namespace. The definitions take the method table and the state of the store. Their
  lemmas are proved from the contract \<open>variable_store\<close> alone and carried over to the file
  store of uefi.go by its interpretation.
\<close>

definition bootVarAttrs :: Attributes where
  "bootVarAttrs = AttrNonVolatile OR AttrBootServiceAccess OR AttrRuntimeAccess"

definition maxBootEntries :: nat where "maxBootEntries = 0x10000"

definition getGlobal :: "'s VariableStore \<Rightarrow> 's \<Rightarrow> string \<Rightarrow> bytes option res" where
  "getGlobal vs st name =
     (case vsGet vs st name EFIGlobalVariableGUID of Ok v \<Rightarrow> Ok (Some (vData v)) | Err e \<Rightarrow> Ok None | Panic \<Rightarrow> Panic)"

definition setGlobal :: "'s VariableStore \<Rightarrow> 's \<Rightarrow> string \<Rightarrow> bytes \<Rightarrow> 's \<times> unit res" where
  "setGlobal vs st name d =
     vsSet vs st \<lparr> vName = name, vGUID = EFIGlobalVariableGUID, vAttributes = bootVarAttrs, vData = d \<rparr>"

definition BootOrder :: "'s VariableStore \<Rightarrow> 's \<Rightarrow> u16 list res" where
  "BootOrder vs st =
     bindR (getGlobal vs st ''BootOrder'') (\<lambda>r.
     case r of
       None \<Rightarrow> Ok []
     | Some d \<Rightarrow> if length d mod 2 \<noteq> 0 then Err (Leaf ''uefi: BootOrder: odd length %d'') else Ok (units_of_bytes d))"

definition SetBootOrder :: "'s VariableStore \<Rightarrow> 's \<Rightarrow> u16 list \<Rightarrow> 's \<times> unit res" where
  "SetBootOrder vs st order = setGlobal vs st ''BootOrder'' (concat (map le16_bytes order))"

definition bootName :: "u16 \<Rightarrow> string" where
  "bootName n = ''Boot'' @ fmt_0X 4 (unat n)"

definition BootEntry :: "'g safeio \<Rightarrow> 's VariableStore \<Rightarrow> 's \<Rightarrow> u16 \<Rightarrow> LoadOption res" where
  "BootEntry sio vs st n =
     bindR (wrap_err ''uefi: BootEntry %s: %w'' (vsGet vs st (bootName n) EFIGlobalVariableGUID)) (\<lambda>v.
     wrap_err ''uefi: BootEntry %s: %w'' (ParseLoadOption sio (vData v)))"

definition SetBootEntry :: "'s VariableStore \<Rightarrow> 's \<Rightarrow> u16 \<Rightarrow> LoadOption \<Rightarrow> 's \<times> unit res" where
  "SetBootEntry vs st n lo =
     (case wrap_err ''uefi: SetBootEntry %s: %w'' (Marshal_LoadOption lo) of
        Ok d \<Rightarrow> setGlobal vs st (bootName n) d
      | Err e \<Rightarrow> (st, Err e)
      | Panic \<Rightarrow> (st, Panic))"

definition DeleteBootEntry :: "'s VariableStore \<Rightarrow> 's \<Rightarrow> u16 \<Rightarrow> 's \<times> unit res" where
  "DeleteBootEntry vs st n =
     (case vsDelete vs st (bootName n) EFIGlobalVariableGUID of (st', r) \<Rightarrow>
      (st', wrap_err ''uefi: DeleteBootEntry %s: %w'' r))"

fun boot_digits :: "nat list \<Rightarrow> u16 \<Rightarrow> u16 option" where
  "boot_digits [] n = Some n"
| "boot_digits (c # cs) n =
     (if 48 \<le> c \<and> c \<le> 57 then boot_digits cs (push_bit 4 n OR of_nat (c - 48))
      else if 65 \<le> c \<and> c \<le> 70 then boot_digits cs (push_bit 4 n OR (of_nat (c - 65) + 10))
      else None)"

definition parseBootName :: "string \<Rightarrow> u16 option" where
  "parseBootName name =
     (if length name \<noteq> 8 \<or> take 4 name \<noteq> ''Boot'' then None
      else boot_digits (runes_of_string (drop 4 name)) 0)"

text \<open>The numbers in use, and the scan for the first one that is not.\<close>

fun used_nums :: "Variable list \<Rightarrow> u16 list" where
  "used_nums [] = []"
| "used_nums (v # vs) =
     (if vGUID v \<noteq> EFIGlobalVariableGUID then used_nums vs
      else case parseBootName (vName v) of Some n \<Rightarrow> n # used_nums vs | None \<Rightarrow> used_nums vs)"

fun free_scan :: "u16 list \<Rightarrow> nat \<Rightarrow> nat \<Rightarrow> u16 option" where
  "free_scan used i 0 = None"
| "free_scan used i (Suc k) =
     (if of_nat i \<in> set used then free_scan used (Suc i) k else Some (of_nat i))"

definition lowestFreeBootNum :: "'s VariableStore \<Rightarrow> 's \<Rightarrow> u16 option" where
  "lowestFreeBootNum vs st = free_scan (used_nums (vsList vs st)) 0 maxBootEntries"

definition AddBootEntry :: "'s VariableStore \<Rightarrow> 's \<Rightarrow> LoadOption \<Rightarrow> 's \<times> u16 res" where
  "AddBootEntry vs st lo =
     (case lowestFreeBootNum vs st of
        None \<Rightarrow> (st, Err (Leaf ''uefi: AddBootEntry: no free Boot#### slot''))
      | Some n \<Rightarrow>
          (case SetBootEntry vs st n lo of
             (st1, Panic) \<Rightarrow> (st1, Panic)
           | (st1, Err e) \<Rightarrow> (st1, Err e)
           | (st1, Ok _) \<Rightarrow>
               (case BootOrder vs st1 of
                  Panic \<Rightarrow> (st1, Panic)
                | Err e \<Rightarrow> (st1, Err e)
                | Ok order \<Rightarrow>
                    (case SetBootOrder vs st1 (order @ [n]) of
                       (st2, Panic) \<Rightarrow> (st2, Panic)
                     | (st2, Err e) \<Rightarrow> (st2, Err e)
                     | (st2, Ok _) \<Rightarrow> (st2, Ok n)))))"

text \<open>The two-byte variables.\<close>

definition get_u16 :: "'s VariableStore \<Rightarrow> 's \<Rightarrow> string \<Rightarrow> string \<Rightarrow> u16 option res" where
  "get_u16 vs st name msg =
     bindR (getGlobal vs st name) (\<lambda>r.
     case r of
       None \<Rightarrow> Ok None
     | Some d \<Rightarrow> if length d \<noteq> 2 then Err (Leaf msg) else bindR (Uint16 d) (\<lambda>n. Ok (Some n)))"

definition BootNext :: "'s VariableStore \<Rightarrow> 's \<Rightarrow> u16 option res" where
  "BootNext vs st = get_u16 vs st ''BootNext'' ''uefi: BootNext: expected 2 bytes, got %d''"

definition SetBootNext :: "'s VariableStore \<Rightarrow> 's \<Rightarrow> u16 \<Rightarrow> 's \<times> unit res" where
  "SetBootNext vs st n = setGlobal vs st ''BootNext'' (le16_bytes n)"

definition ClearBootNext :: "'s VariableStore \<Rightarrow> 's \<Rightarrow> 's \<times> unit res" where
  "ClearBootNext vs st =
     (case getGlobal vs st ''BootNext'' of
        Panic \<Rightarrow> (st, Panic)
      | Err e \<Rightarrow> (st, Err e)
      | Ok None \<Rightarrow> (st, Ok ())
      | Ok (Some _) \<Rightarrow>
          (case vsDelete vs st ''BootNext'' EFIGlobalVariableGUID of (st', r) \<Rightarrow>
           (st', wrap_err ''uefi: ClearBootNext: %w'' r)))"

definition BootCurrent :: "'s VariableStore \<Rightarrow> 's \<Rightarrow> u16 res" where
  "BootCurrent vs st =
     bindR (get_u16 vs st ''BootCurrent'' ''uefi: BootCurrent: expected 2 bytes, got %d'') (\<lambda>r.
     case r of None \<Rightarrow> Err (Leaf ''uefi: BootCurrent: not set'') | Some n \<Rightarrow> Ok n)"

definition SetBootCurrent :: "'s VariableStore \<Rightarrow> 's \<Rightarrow> u16 \<Rightarrow> 's \<times> unit res" where
  "SetBootCurrent vs st n = setGlobal vs st ''BootCurrent'' (le16_bytes n)"

definition Timeout :: "'s VariableStore \<Rightarrow> 's \<Rightarrow> u16 option res" where
  "Timeout vs st = get_u16 vs st ''Timeout'' ''uefi: Timeout: expected 2 bytes, got %d''"

definition SetTimeout :: "'s VariableStore \<Rightarrow> 's \<Rightarrow> u16 \<Rightarrow> 's \<times> unit res" where
  "SetTimeout vs st n = setGlobal vs st ''Timeout'' (le16_bytes n)"

text \<open>\<open>ListBootEntries\<close>: the map of parseable entries, then the numbers in BootOrder's sequence,
  then the remaining ones in ascending order. The Go map \<open>seen\<close> always holds exactly the members
  of \<open>ordered\<close>, so the loops test membership there.\<close>

fun boot_entries :: "'g safeio \<Rightarrow> Variable list \<Rightarrow> (u16 \<Rightarrow> LoadOption option) \<Rightarrow> (u16 \<Rightarrow> LoadOption option) res" where
  "boot_entries sio [] m = Ok m"
| "boot_entries sio (v # vs) m =
     (if vGUID v \<noteq> EFIGlobalVariableGUID then boot_entries sio vs m
      else case parseBootName (vName v) of
          None \<Rightarrow> boot_entries sio vs m
        | Some n \<Rightarrow>
            (case ParseLoadOption sio (vData v) of
               Ok lo \<Rightarrow> boot_entries sio vs (m(n \<mapsto> lo))
             | Err e \<Rightarrow> boot_entries sio vs m
             | Panic \<Rightarrow> Panic))"

fun order_loop :: "(u16 \<Rightarrow> LoadOption option) \<Rightarrow> u16 list \<Rightarrow> u16 list \<Rightarrow> u16 list" where
  "order_loop m [] ordered = ordered"
| "order_loop m (n # ns) ordered =
     (if m n \<noteq> None \<and> n \<notin> set ordered then order_loop m ns (ordered @ [n]) else order_loop m ns ordered)"

fun rest_loop :: "(u16 \<Rightarrow> LoadOption option) \<Rightarrow> nat \<Rightarrow> nat \<Rightarrow> u16 list \<Rightarrow> u16 list" where
  "rest_loop m i 0 ordered = ordered"
| "rest_loop m i (Suc k) ordered =
     (if m (of_nat i) = None then rest_loop m (Suc i) k ordered
      else if of_nat i \<in> set ordered then rest_loop m (Suc i) k ordered
      else rest_loop m (Suc i) k (ordered @ [of_nat i]))"

definition ListBootEntries ::
  "'g safeio \<Rightarrow> 's VariableStore \<Rightarrow> 's \<Rightarrow> ((u16 \<Rightarrow> LoadOption option) \<times> u16 list) res" where
  "ListBootEntries sio vs st =
     bindR (boot_entries sio (vsList vs st) (\<lambda>_. None)) (\<lambda>m.
     bindR (BootOrder vs st) (\<lambda>order.
     Ok (m, rest_loop m 0 maxBootEntries (order_loop m order []))))"

subsection \<open>Names of boot variables\<close>

definition digit_rune :: "nat \<Rightarrow> nat" where
  "digit_rune d = (if d < 10 then 48 + d else 55 + d)"

lemma of_char_upper_digit: "d < 16 \<Longrightarrow> of_char (upper_digit d) = digit_rune d"
  by (auto simp: upper_digit_def digit_rune_def less_Suc_eq numeral_eq_Suc)

lemma shift_digit: "d < 16 \<Longrightarrow> push_bit 4 x OR of_nat d = 16 * x + of_nat d" for x :: u16
proof -
  assume d: "d < 16"
  have "\<not> bit d i" if "4 \<le> i" for i
  proof -
    have "d < 2 ^ i"
      using d power_increasing [OF that, of "2 :: nat"] by simp
    then show ?thesis
      by (simp add: bit_iff_odd)
  qed
  then have "push_bit 4 x AND of_nat d = 0"
    by (intro bit_word_eqI) (auto simp: bit_simps not_le)
  from disjunctive_add_eq_or [OF this] show ?thesis
    by (simp add: push_bit_eq_mult mult.commute)
qed

lemma boot_digits_rune: "d < 16 \<Longrightarrow> boot_digits (digit_rune d # cs) x = boot_digits cs (16 * x + of_nat d)"
proof (cases "d < 10")
  case False
  assume d: "d < 16"
  with False have "(of_nat (digit_rune d - 65) :: u16) + 10 = of_nat d"
    by (simp add: digit_rune_def)
  with False d show ?thesis
    using shift_digit [of d x] by (simp add: digit_rune_def)
qed (simp add: digit_rune_def shift_digit)

lemma boot_digits_digits:
  "\<forall>d \<in> set ds. d < 16 \<Longrightarrow> boot_digits (map digit_rune ds) x = Some (foldl (\<lambda>a d. 16 * a + of_nat d) x ds)"
  by (induction ds arbitrary: x) (simp_all add: boot_digits_rune del: boot_digits.simps(2))

lemma boot_digits_Some:
  "boot_digits rs x = Some n \<Longrightarrow> \<exists>ds. rs = map digit_rune ds \<and> (\<forall>d \<in> set ds. d < 16)"
proof (induction rs x rule: boot_digits.induct)
  case (2 c cs x)
  let ?P = "\<lambda>cs. \<exists>ds. cs = map digit_rune ds \<and> (\<forall>d \<in> set ds. d < 16)"
  have "\<exists>d. c = digit_rune d \<and> d < 16 \<and> ?P cs"
  proof (cases "48 \<le> c \<and> c \<le> 57")
    case True
    then have "?P cs"
      using 2 by simp
    moreover have "c = digit_rune (c - 48)" "c - 48 < 16"
      using True by (simp_all add: digit_rune_def) linarith+
    ultimately show ?thesis by blast
  next
    case False
    with "2.prems" have c: "65 \<le> c \<and> c \<le> 70"
      by (auto split: if_splits)
    then have "?P cs"
      using False 2 by simp
    moreover have "c = digit_rune (c - 55)" "c - 55 < 16"
      using c by (simp_all add: digit_rune_def) linarith+
    ultimately show ?thesis by blast
  qed
  then obtain d where d: "c = digit_rune d" "d < 16" and "?P cs"
    by blast
  then obtain ds where "cs = map digit_rune ds" "\<forall>d \<in> set ds. d < 16"
    by blast
  with d show ?case
    by (intro exI [of _ "d # ds"]) simp
qed simp

lemma bootName_digits:
  "bootName n = ''Boot'' @ map upper_digit [unat n div 4096, unat n div 256 mod 16, unat n div 16 mod 16, unat n mod 16]"
  using pad_digits_4 [of "unat n"] unat_u16_less [of n] by (simp add: bootName_def fmt_0X_def)

lemma length_bootName: "length (bootName n) = 8"
  by (simp add: bootName_digits)

lemma hex_value:
  "((d3 * 16 + d2) * 16 + d1) * 16 + d0 < 0x10000" "(((d3 * 16 + d2) * 16 + d1) * 16 + d0) div 4096 = d3"
  "(((d3 * 16 + d2) * 16 + d1) * 16 + d0) div 256 mod 16 = d2"
  "(((d3 * 16 + d2) * 16 + d1) * 16 + d0) div 16 mod 16 = d1" "(((d3 * 16 + d2) * 16 + d1) * 16 + d0) mod 16 = d0"
  if "d3 < 16" "d2 < 16" "d1 < 16" "d0 < 16" for d0 d1 d2 d3 :: nat
proof -
  have q1: "(((d3 * 16 + d2) * 16 + d1) * 16 + d0) div 16 = (d3 * 16 + d2) * 16 + d1"
    using that by simp
  have q2: "((d3 * 16 + d2) * 16 + d1) div 16 = d3 * 16 + d2"
    using that by simp
  have e: "x div 256 = x div 16 div 16" "x div 4096 = x div 16 div 16 div 16" for x :: nat
    by (simp_all add: div_mult2_eq [symmetric])
  show "(((d3 * 16 + d2) * 16 + d1) * 16 + d0) div 4096 = d3"
    "(((d3 * 16 + d2) * 16 + d1) * 16 + d0) div 256 mod 16 = d2"
    "(((d3 * 16 + d2) * 16 + d1) * 16 + d0) div 16 mod 16 = d1"
    "(((d3 * 16 + d2) * 16 + d1) * 16 + d0) mod 16 = d0"
    "((d3 * 16 + d2) * 16 + d1) * 16 + d0 < 0x10000"
    unfolding e q1 q2 using that by (simp_all only: mod_mult_self3 mod_less) simp_all
qed

lemma bootName_of_digits:
  assumes "d3 < 16" "d2 < 16" "d1 < 16" "d0 < 16"
  shows "bootName (of_nat (((d3 * 16 + d2) * 16 + d1) * 16 + d0)) = ''Boot'' @ map upper_digit [d3, d2, d1, d0]"
proof -
  have "unat (of_nat (((d3 * 16 + d2) * 16 + d1) * 16 + d0) :: u16) = ((d3 * 16 + d2) * 16 + d1) * 16 + d0"
    using hex_value(1) [OF assms] by (rule unat_of_nat_u16)
  then show ?thesis
    using hex_value(2-5) [OF assms] by (simp add: bootName_digits del: of_nat_add of_nat_mult)
qed

lemma digits_value:
  "foldl (\<lambda>a d. 16 * a + of_nat d) (0 :: u16) [d3, d2, d1, d0] = of_nat (((d3 * 16 + d2) * 16 + d1) * 16 + d0)"
  by (simp add: algebra_simps)

lemma parse_upper_digits:
  assumes "d3 < 16" "d2 < 16" "d1 < 16" "d0 < 16"
  shows "parseBootName (''Boot'' @ map upper_digit [d3, d2, d1, d0]) = Some (of_nat (((d3 * 16 + d2) * 16 + d1) * 16 + d0))"
proof -
  have "digit_rune d < 0x80" if "d < 16" for d
    using that by (simp add: digit_rune_def)
  then have "runes_of_string (map upper_digit [d3, d2, d1, d0]) = map digit_rune [d3, d2, d1, d0]"
    using assms by (subst runes_of_ascii) (auto simp: of_char_upper_digit)
  then show ?thesis
    using boot_digits_digits [of "[d3, d2, d1, d0]" 0] assms digits_value [of d3 d2 d1 d0]
    by (simp add: parseBootName_def)
qed

lemma parseBootName_bootName: "parseBootName (bootName n) = Some n"
proof -
  let ?u = "unat n"
  have "?u < 0x10000"
    using unat_u16_less [of n] by simp
  then have "?u div 4096 < 16"
    by simp
  moreover have "((?u div 4096 * 16 + ?u div 256 mod 16) * 16 + ?u div 16 mod 16) * 16 + ?u mod 16 = ?u"
  proof -
    have "?u div 4096 = ?u div 256 div 16" "?u div 256 = ?u div 16 div 16"
      by (simp_all add: div_mult2_eq [symmetric])
    then show ?thesis
      by (metis div_mult_mod_eq)
  qed
  ultimately show ?thesis
    using parse_upper_digits [of "?u div 4096" "?u div 256 mod 16" "?u div 16 mod 16" "?u mod 16"]
    by (simp add: bootName_digits)
qed

lemma parseBootName_Some:
  assumes "parseBootName name = Some n"
  shows "name = bootName n"
proof -
  have len: "length name = 8" and boot: "take 4 name = ''Boot''"
    and dig: "boot_digits (runes_of_string (drop 4 name)) 0 = Some n"
    using assms by (auto simp: parseBootName_def split: if_splits)
  obtain ds where ds: "runes_of_string (drop 4 name) = map digit_rune ds" "\<forall>d \<in> set ds. d < 16"
    using boot_digits_Some [OF dig] by blast
  have "\<forall>r \<in> set (runes_of_string (drop 4 name)). r < 0x80"
    using ds by (auto simp: digit_rune_def)
  from runes_all_ascii [OF this] have r: "map of_char (drop 4 name) = map digit_rune ds"
    using ds(1) by simp
  moreover have "map digit_rune ds = map of_char (map upper_digit ds)"
    using ds(2) by (simp add: of_char_upper_digit)
  ultimately have "map of_char (drop 4 name) = (map of_char (map upper_digit ds) :: nat list)"
    by simp
  then have "drop 4 name = map upper_digit ds"
    by (rule map_injective) (simp add: inj_def)
  moreover have "length ds = 4"
    using arg_cong [OF r, of length] len by simp
  then obtain d3 d2 d1 d0 where d: "ds = [d3, d2, d1, d0]"
    by (auto simp: numeral_eq_Suc length_Suc_conv)
  ultimately have name: "name = ''Boot'' @ map upper_digit [d3, d2, d1, d0]"
    using boot append_take_drop_id [of 4 name] by simp
  then show ?thesis
    using assms ds(2) parse_upper_digits [of d3 d2 d1 d0] bootName_of_digits [of d3 d2 d1 d0]
    by (simp add: d del: of_nat_add of_nat_mult)
qed

lemma parseBootName_iff: "parseBootName name = Some n \<longleftrightarrow> name = bootName n"
  using parseBootName_Some parseBootName_bootName by blast

lemma bootName_inj [simp]: "bootName m = bootName n \<longleftrightarrow> m = n"
  using parseBootName_bootName by (metis option.inject)

lemma control_names [simp]:
  "bootName n \<noteq> ''BootOrder''" "bootName n \<noteq> ''BootNext''" "bootName n \<noteq> ''BootCurrent''" "bootName n \<noteq> ''Timeout''"
proof -
  show "bootName n \<noteq> ''BootOrder''" "bootName n \<noteq> ''BootCurrent''" "bootName n \<noteq> ''Timeout''"
    using length_bootName [of n] by auto
  have "parseBootName ''BootNext'' = None"
    by (simp add: parseBootName_def runes_of_ascii)
  then show "bootName n \<noteq> ''BootNext''"
    using parseBootName_bootName [of n] by auto
qed

subsection \<open>Scans and lists\<close>

lemma used_nums_iff:
  "n \<in> set (used_nums vs) \<longleftrightarrow> (\<exists>v \<in> set vs. vName v = bootName n \<and> vGUID v = EFIGlobalVariableGUID)"
proof (induction vs)
  case (Cons v vs)
  show ?case
  proof (cases "parseBootName (vName v)")
    case None
    then have "vName v \<noteq> bootName n"
      using parseBootName_bootName [of n] by auto
    with None Cons show ?thesis by auto
  next
    case (Some m)
    then have "vName v = bootName m"
      by (simp add: parseBootName_iff)
    with Some Cons show ?thesis by auto
  qed
qed simp

lemma free_scan_Some:
  "free_scan used i k = Some n \<Longrightarrow> i + k \<le> 0x10000 \<Longrightarrow>
     n \<notin> set used \<and> i \<le> unat n \<and> (\<forall>m :: u16. i \<le> unat m \<and> unat m < unat n \<longrightarrow> m \<in> set used)"
proof (induction k arbitrary: i)
  case (Suc k)
  have u: "unat (of_nat i :: u16) = i"
    using Suc.prems(2) by (intro unat_of_nat_u16) simp
  show ?case
  proof (cases "(of_nat i :: u16) \<in> set used")
    case True
    note IH = Suc.IH [of "Suc i"]
    have "m \<in> set used" if "i \<le> unat m" "unat m < unat n" for m :: u16
    proof (cases "unat m = i")
      case True
      then have "m = of_nat i"
        by auto
      with \<open>(of_nat i :: u16) \<in> set used\<close> show ?thesis by simp
    next
      case False
      then show ?thesis
        using IH True Suc.prems that by simp
    qed
    with IH True Suc.prems show ?thesis by simp
  next
    case False
    with Suc.prems u show ?thesis by auto
  qed
qed simp

lemma free_scan_None:
  "free_scan used i k = None \<longleftrightarrow> (\<forall>j. i \<le> j \<and> j < i + k \<longrightarrow> of_nat j \<in> set used)"
proof (induction k arbitrary: i)
  case (Suc k)
  have "(\<forall>j. i \<le> j \<and> j < i + Suc k \<longrightarrow> of_nat j \<in> set used) \<longleftrightarrow>
      of_nat i \<in> set used \<and> (\<forall>j. Suc i \<le> j \<and> j < Suc i + k \<longrightarrow> of_nat j \<in> set used)"
    by (metis Suc_leI add_Suc add_Suc_right le_neq_implies_less le_refl less_add_Suc1 Suc_leD)
  with Suc show ?case by simp
qed auto

lemma u16_below: "(\<forall>j < 0x10000. P (of_nat j :: u16)) \<longleftrightarrow> (\<forall>n. P n)"
proof
  assume a: "\<forall>j < 0x10000. P (of_nat j :: u16)"
  show "\<forall>n. P n"
  proof
    fix n :: u16
    have "unat n < 0x10000"
      using unat_u16_less [of n] by simp
    with a have "P (of_nat (unat n))"
      by blast
    then show "P n" by simp
  qed
qed simp

text \<open>The order of a listing: distinct numbers of existing entries, BootOrder's first.\<close>

lemma order_loop_eq:
  "distinct ordered \<Longrightarrow> distinct (order_loop m ns ordered) \<and>
     set (order_loop m ns ordered) = set ordered \<union> {n \<in> set ns. m n \<noteq> None}"
proof (induction m ns ordered rule: order_loop.induct)
  case (2 m n ns ordered)
  then show ?case by (cases "m n \<noteq> None \<and> n \<notin> set ordered") auto
qed simp

lemma rest_loop_eq:
  "distinct ordered \<Longrightarrow> \<exists>rs. rest_loop m i k ordered = ordered @ rs \<and> distinct (ordered @ rs) \<and>
     set rs = {n. m n \<noteq> None \<and> n \<notin> set ordered \<and> (\<exists>j. i \<le> j \<and> j < i + k \<and> n = of_nat j)} \<and>
     (i + k \<le> 0x10000 \<longrightarrow> sorted (map unat rs))"
proof (induction k arbitrary: i ordered)
  case 0
  then show ?case by auto
next
  case (Suc k)
  let ?S = "\<lambda>i k ordered. {n. m n \<noteq> None \<and> n \<notin> set ordered \<and> (\<exists>j. i \<le> j \<and> j < i + k \<and> n = of_nat j)}"
  have split: "(\<exists>j. i \<le> j \<and> j < i + Suc k \<and> n = of_nat j) \<longleftrightarrow> n = of_nat i \<or> (\<exists>j. Suc i \<le> j \<and> j < Suc i + k \<and> n = of_nat j)"
    for n :: u16
    by (metis Suc_leD Suc_leI add_Suc add_Suc_right le_neq_implies_less le_refl less_add_Suc1)
  show ?case
  proof (cases "m (of_nat i) = None \<or> of_nat i \<in> set ordered")
    case True
    then have "rest_loop m i (Suc k) ordered = rest_loop m (Suc i) k ordered"
      by auto
    moreover have "?S i (Suc k) ordered = ?S (Suc i) k ordered"
      using True unfolding split by auto
    ultimately show ?thesis
      using Suc.IH [OF Suc.prems, of "Suc i"] by simp
  next
    case False
    let ?o = "ordered @ [of_nat i]"
    have r: "rest_loop m i (Suc k) ordered = rest_loop m (Suc i) k ?o"
      using False by auto
    have "distinct ?o"
      using False Suc.prems by simp
    from Suc.IH [OF this, of "Suc i"] obtain rs where rs: "rest_loop m (Suc i) k ?o = ?o @ rs" "distinct (?o @ rs)"
      "set rs = ?S (Suc i) k ?o" "Suc i + k \<le> 0x10000 \<longrightarrow> sorted (map unat rs)"
      by blast
    have "set (of_nat i # rs) = ?S i (Suc k) ordered"
      using False rs(2,3) unfolding split by auto
    moreover have "sorted (map unat (of_nat i # rs))" if le: "i + Suc k \<le> 0x10000"
    proof -
      have "unat (of_nat i :: u16) \<le> unat n" if n: "n \<in> set rs" for n
      proof -
        obtain j where j: "Suc i \<le> j" "j < Suc i + k" "n = of_nat j"
          using n unfolding rs(3) mem_Collect_eq by blast
        then have "unat n = j" "unat (of_nat i :: u16) = i"
          using le by (simp_all add: unat_of_nat_u16)
        with j show ?thesis by simp
      qed
      with rs(4) le show ?thesis by simp
    qed
    ultimately show ?thesis
      using r rs(1,2) by (intro exI [of _ "of_nat i # rs"]) simp
  qed
qed

subsection \<open>The boot manager over any variable store\<close>

definition global_var :: "string \<Rightarrow> bytes \<Rightarrow> Variable" where
  "global_var name d = \<lparr> vName = name, vGUID = EFIGlobalVariableGUID, vAttributes = bootVarAttrs, vData = d \<rparr>"

context variable_store
begin

lemma getGlobal_lookup: "getGlobal vs st n = Ok (map_option vData (vs_lookup vs st n EFIGlobalVariableGUID))"
  using get_not_panic [of st n EFIGlobalVariableGUID]
  by (auto simp: getGlobal_def vs_lookup_def split: res.splits)

lemma setGlobal_lookup:
  "setGlobal vs st n d = (st', Ok ()) \<Longrightarrow>
   vs_lookup vs st' n' g = (if n' = n \<and> g = EFIGlobalVariableGUID then Some (global_var n d) else vs_lookup vs st n' g)"
  unfolding setGlobal_def by (drule set_lookup [of _ _ _ n' g]) (simp add: global_var_def)

lemma BootOrder_eq:
  "BootOrder vs st =
     (case vs_lookup vs st ''BootOrder'' EFIGlobalVariableGUID of
        None \<Rightarrow> Ok []
      | Some v \<Rightarrow> if length (vData v) mod 2 \<noteq> 0 then Err (Leaf ''uefi: BootOrder: odd length %d'')
                  else Ok (units_of_bytes (vData v)))"
  by (simp add: BootOrder_def getGlobal_lookup split: option.split)

lemma SetBootOrder_BootOrder: "SetBootOrder vs st order = (st', Ok ()) \<Longrightarrow> BootOrder vs st' = Ok order"
  unfolding SetBootOrder_def by (simp add: BootOrder_eq setGlobal_lookup global_var_def units_of_le16_bytes)

lemma SetBootEntry_lookup:
  assumes "SetBootEntry vs st n lo = (st', Ok ())"
  shows "\<exists>b. Marshal_LoadOption lo = Ok b \<and>
    (\<forall>n' g. vs_lookup vs st' n' g =
      (if n' = bootName n \<and> g = EFIGlobalVariableGUID then Some (global_var (bootName n) b) else vs_lookup vs st n' g))"
  using assms by (auto simp: SetBootEntry_def wrap_err_def setGlobal_lookup split: res.splits)

lemma BootEntry_lookup:
  "vs_lookup vs st (bootName n) EFIGlobalVariableGUID = Some v \<Longrightarrow>
   BootEntry sio vs st n = wrap_err ''uefi: BootEntry %s: %w'' (ParseLoadOption sio (vData v))"
  by (simp add: BootEntry_def lookup_Some_iff)

lemma used_lookup:
  "n \<in> set (used_nums (vsList vs st)) \<longleftrightarrow> vs_lookup vs st (bootName n) EFIGlobalVariableGUID \<noteq> None"
  unfolding used_nums_iff lookup_dom ..

lemma lowestFree_Some:
  "lowestFreeBootNum vs st = Some n \<Longrightarrow>
     vs_lookup vs st (bootName n) EFIGlobalVariableGUID = None \<and>
     (\<forall>m. unat m < unat n \<longrightarrow> vs_lookup vs st (bootName m) EFIGlobalVariableGUID \<noteq> None)"
  unfolding lowestFreeBootNum_def maxBootEntries_def
  by (drule free_scan_Some) (simp_all add: used_lookup)

lemma lowestFree_None:
  "lowestFreeBootNum vs st = None \<longleftrightarrow> (\<forall>n. vs_lookup vs st (bootName n) EFIGlobalVariableGUID \<noteq> None)"
proof -
  have "lowestFreeBootNum vs st = None \<longleftrightarrow> (\<forall>j < 0x10000. of_nat j \<in> set (used_nums (vsList vs st)))"
    by (simp add: lowestFreeBootNum_def maxBootEntries_def free_scan_None)
  also have "\<dots> \<longleftrightarrow> (\<forall>n. n \<in> set (used_nums (vsList vs st)))"
    by (rule u16_below)
  finally show ?thesis
    by (simp only: used_lookup)
qed

lemma AddBootEntry_Ok:
  assumes "AddBootEntry vs st lo = (st', Ok n)"
  shows "\<exists>b order. lowestFreeBootNum vs st = Some n \<and> Marshal_LoadOption lo = Ok b \<and>
    BootOrder vs st = Ok order \<and> BootOrder vs st' = Ok (order @ [n]) \<and>
    vs_lookup vs st' (bootName n) EFIGlobalVariableGUID = Some (global_var (bootName n) b) \<and>
    (\<forall>n' g. g \<noteq> EFIGlobalVariableGUID \<or> n' \<noteq> bootName n \<and> n' \<noteq> ''BootOrder'' \<longrightarrow>
       vs_lookup vs st' n' g = vs_lookup vs st n' g)"
proof -
  obtain st1 order where free: "lowestFreeBootNum vs st = Some n"
    and entry: "SetBootEntry vs st n lo = (st1, Ok ())" and order: "BootOrder vs st1 = Ok order"
    and set: "SetBootOrder vs st1 (order @ [n]) = (st', Ok ())"
    using assms by (auto simp: AddBootEntry_def split: option.splits prod.splits res.splits)
  obtain b where b: "Marshal_LoadOption lo = Ok b"
    and l1: "\<And>n' g. vs_lookup vs st1 n' g =
      (if n' = bootName n \<and> g = EFIGlobalVariableGUID then Some (global_var (bootName n) b) else vs_lookup vs st n' g)"
    using SetBootEntry_lookup [OF entry] by blast
  have l2: "vs_lookup vs st' n' g =
      (if n' = ''BootOrder'' \<and> g = EFIGlobalVariableGUID then Some (global_var ''BootOrder'' (concat (map le16_bytes (order @ [n]))))
       else vs_lookup vs st1 n' g)" for n' g
    using setGlobal_lookup [OF set [unfolded SetBootOrder_def]] .
  have "BootOrder vs st = Ok order"
    using order l1 [of "''BootOrder''"] control_names(1) [of n] by (simp add: BootOrder_eq)
  with SetBootOrder_BootOrder [OF set] free b l1 l2 control_names(1) [of n] show ?thesis
    by (intro exI [of _ b] exI [of _ order]) (auto simp del: control_names)
qed

lemma u16_var_roundtrip:
  assumes "setGlobal vs st name (le16_bytes n) = (st', Ok ())"
  shows "get_u16 vs st' name msg = Ok (Some n)"
  using Uint16_bytes [of n "[]"] by (simp add: get_u16_def getGlobal_lookup setGlobal_lookup [OF assms] global_var_def)

lemma boot_control_roundtrip:
  "SetBootNext vs st n = (st', Ok ()) \<Longrightarrow> BootNext vs st' = Ok (Some n)"
  "SetBootCurrent vs st n = (st', Ok ()) \<Longrightarrow> BootCurrent vs st' = Ok n"
  "SetTimeout vs st n = (st', Ok ()) \<Longrightarrow> Timeout vs st' = Ok (Some n)"
  by (simp_all add: SetBootNext_def BootNext_def SetBootCurrent_def BootCurrent_def SetTimeout_def Timeout_def
      u16_var_roundtrip)

lemma ClearBootNext_Ok:
  assumes "ClearBootNext vs st = (st', Ok ())"
  shows "BootNext vs st' = Ok None"
proof -
  have "vs_lookup vs st' ''BootNext'' EFIGlobalVariableGUID = None"
  proof (cases "vs_lookup vs st ''BootNext'' EFIGlobalVariableGUID")
    case None
    with assms show ?thesis
      by (simp add: ClearBootNext_def getGlobal_lookup)
  next
    case (Some v)
    then have "vsDelete vs st ''BootNext'' EFIGlobalVariableGUID = (st', Ok ())"
      using assms by (auto simp: ClearBootNext_def getGlobal_lookup wrap_err_Ok_iff split: prod.splits)
    from delete_lookup [OF this] show ?thesis by simp
  qed
  then show "BootNext vs st' = Ok None"
    by (simp add: BootNext_def get_u16_def getGlobal_lookup)
qed

end

subsection \<open>Listing\<close>

lemma remdups_snoc: "remdups (xs @ [n]) = filter (\<lambda>x. x \<noteq> n) (remdups xs) @ [n]"
  by (induction xs) auto

lemma order_loop_first:
  "order_loop m ns ordered = ordered @ rev (remdups (rev (filter (\<lambda>n. m n \<noteq> None \<and> n \<notin> set ordered) ns)))"
proof (induction m ns ordered rule: order_loop.induct)
  case (2 m n ns ordered)
  show ?case
  proof (cases "m n \<noteq> None \<and> n \<notin> set ordered")
    case True
    have "filter (\<lambda>k. m k \<noteq> None \<and> k \<notin> set (ordered @ [n])) ns =
        filter (\<lambda>k. k \<noteq> n) (filter (\<lambda>k. m k \<noteq> None \<and> k \<notin> set ordered) ns)"
      by (auto intro!: filter_cong)
    then show ?thesis
      using True 2 by (simp add: remdups_snoc remdups_filter rev_filter)
  next
    case False
    then show ?thesis
      using 2 by auto
  qed
qed simp

text \<open>What one variable of the store adds to the map of entries; a later one overrides an earlier.\<close>

definition boot_entry :: "'g safeio \<Rightarrow> Variable \<Rightarrow> (u16 \<times> LoadOption) option" where
  "boot_entry sio v =
     (if vGUID v \<noteq> EFIGlobalVariableGUID then None
      else case parseBootName (vName v) of
          None \<Rightarrow> None
        | Some n \<Rightarrow> (case ParseLoadOption sio (vData v) of Ok lo \<Rightarrow> Some (n, lo) | _ \<Rightarrow> None))"

lemma boot_entry_Some:
  "boot_entry sio v = Some (n, lo) \<longleftrightarrow>
     vName v = bootName n \<and> vGUID v = EFIGlobalVariableGUID \<and> ParseLoadOption sio (vData v) = Ok lo"
  by (auto simp: boot_entry_def parseBootName_bootName parseBootName_iff split: option.splits res.splits)

lemma boot_entries_Cons:
  assumes "safeio_spec sio"
  shows "boot_entries sio (v # vs) m =
    (case boot_entry sio v of Some (n, lo) \<Rightarrow> boot_entries sio vs (m(n \<mapsto> lo)) | None \<Rightarrow> boot_entries sio vs m)"
  using ParseLoadOption_not_Panic [OF assms, of "vData v"]
  by (simp add: boot_entry_def fun_upd_def split: option.split res.split)

lemma boot_entries_eq:
  assumes "safeio_spec sio"
  shows "boot_entries sio vs m = Ok (m ++ map_of (rev (List.map_filter (boot_entry sio) vs)))"
proof (induction vs arbitrary: m)
  case (Cons v vs)
  show ?case
  proof (cases "boot_entry sio v")
    case (Some e)
    obtain n lo where e: "e = (n, lo)"
      by (rule prod.exhaust)
    show ?thesis
      unfolding boot_entries_Cons [OF assms] Some e option.case prod.case Cons.IH [of "m(n \<mapsto> lo)"]
      using Some e by (simp add: List.map_filter_def)
  qed (simp add: boot_entries_Cons [OF assms] Cons.IH List.map_filter_def del: boot_entries.simps)
qed (simp add: List.map_filter_def)

lemma boot_entries_Ok:
  assumes spec: "safeio_spec sio"
  shows "\<exists>m'. boot_entries sio vs (\<lambda>_. None) = Ok m' \<and>
    (\<forall>n. m' n \<noteq> None \<longleftrightarrow>
       (\<exists>v \<in> set vs. vName v = bootName n \<and> vGUID v = EFIGlobalVariableGUID \<and> (\<exists>lo. ParseLoadOption sio (vData v) = Ok lo))) \<and>
    (\<forall>n lo. m' n = Some lo \<longrightarrow>
       (\<exists>v \<in> set vs. vName v = bootName n \<and> vGUID v = EFIGlobalVariableGUID \<and> ParseLoadOption sio (vData v) = Ok lo))"
proof -
  define es where "es = rev (List.map_filter (boot_entry sio) vs)"
  have es: "(n, lo) \<in> set es \<longleftrightarrow>
      (\<exists>v \<in> set vs. vName v = bootName n \<and> vGUID v = EFIGlobalVariableGUID \<and> ParseLoadOption sio (vData v) = Ok lo)" for n lo
    by (force simp: es_def List.map_filter_def boot_entry_Some [symmetric])
  have "boot_entries sio vs (\<lambda>_. None) = Ok (map_of es)"
    using boot_entries_eq [OF spec, of vs Map.empty] by (simp add: es_def)
  moreover have "map_of es n \<noteq> None \<longleftrightarrow> (\<exists>lo. (n, lo) \<in> set es)" for n
    by (force simp: map_of_eq_None_iff)
  ultimately show ?thesis
    using es map_of_SomeD [of es] by (intro exI [of _ "map_of es"]) blast
qed

lemma ListBootEntries_Ok:
  assumes spec: "safeio_spec sio" and ok: "ListBootEntries sio vs st = Ok (m, ordered)"
  shows "\<exists>order rs. BootOrder vs st = Ok order \<and>
      ordered = rev (remdups (rev (filter (\<lambda>n. m n \<noteq> None) order))) @ rs \<and> sorted (map unat rs) \<and>
      distinct ordered \<and> set ordered = {n. m n \<noteq> None}"
    "(\<forall>n. m n \<noteq> None \<longleftrightarrow> (\<exists>v \<in> set (vsList vs st). vName v = bootName n \<and> vGUID v = EFIGlobalVariableGUID \<and>
        (\<exists>lo. ParseLoadOption sio (vData v) = Ok lo)))"
    "(\<forall>n lo. m n = Some lo \<longrightarrow> (\<exists>v \<in> set (vsList vs st). vName v = bootName n \<and> vGUID v = EFIGlobalVariableGUID \<and>
        ParseLoadOption sio (vData v) = Ok lo))"
proof -
  obtain order where e: "boot_entries sio (vsList vs st) (\<lambda>_. None) = Ok m" and o: "BootOrder vs st = Ok order"
    and l: "ordered = rest_loop m 0 maxBootEntries (order_loop m order [])"
    using ok by (auto simp: ListBootEntries_def bindR_Ok_iff)
  show "(\<forall>n. m n \<noteq> None \<longleftrightarrow> (\<exists>v \<in> set (vsList vs st). vName v = bootName n \<and> vGUID v = EFIGlobalVariableGUID \<and>
        (\<exists>lo. ParseLoadOption sio (vData v) = Ok lo)))"
    "(\<forall>n lo. m n = Some lo \<longrightarrow> (\<exists>v \<in> set (vsList vs st). vName v = bootName n \<and> vGUID v = EFIGlobalVariableGUID \<and>
        ParseLoadOption sio (vData v) = Ok lo))"
    using boot_entries_Ok [OF spec, of "vsList vs st"] e by auto
  let ?o = "order_loop m order []"
  have d: "distinct ?o" "set ?o = {n \<in> set order. m n \<noteq> None}"
    using order_loop_eq [of "[]" m order] by simp_all
  obtain rs where rs: "ordered = ?o @ rs" "distinct (?o @ rs)" "sorted (map unat rs)"
    "set rs = {n. m n \<noteq> None \<and> n \<notin> set ?o \<and> (\<exists>j. 0 \<le> j \<and> j < 0 + maxBootEntries \<and> n = of_nat j)}"
    using rest_loop_eq [OF d(1), of m 0 maxBootEntries] l by (auto simp: maxBootEntries_def)
  have "\<exists>j. j < maxBootEntries \<and> n = of_nat j" for n :: u16
    using unat_u16_less [of n] by (intro exI [of _ "unat n"]) (simp add: maxBootEntries_def)
  then have "set (?o @ rs) = {n. m n \<noteq> None}"
    using d(2) rs(4) by auto
  with o rs show "\<exists>order rs. BootOrder vs st = Ok order \<and>
      ordered = rev (remdups (rev (filter (\<lambda>n. m n \<noteq> None) order))) @ rs \<and> sorted (map unat rs) \<and>
      distinct ordered \<and> set ordered = {n. m n \<noteq> None}"
    by (intro exI [of _ order] exI [of _ rs]) (simp add: order_loop_first)
qed

subsection \<open>Properties\<close>

text \<open>Property C35. Boot variable names: parseBootName accepts exactly the names that bootName
  prints, with the number they carry, so Boot0000 to BootFFFF in upper-case digits and nothing
  else, control variables included.\<close>

theorem boot_name_roundtrip: "parseBootName name = Some n \<longleftrightarrow> name = bootName n"
  by (rule parseBootName_iff)

text \<open>Property C10. AddBootEntry: on success the number it returns had no entry and is the lowest
  such number, the entry now holds the marshalled load option, BootOrder is the old order with
  the number appended, and no other variable of any namespace has changed.\<close>

theorem AddBootEntry_behaviour:
  assumes "AddBootEntry nv_store st lo = (st', Ok n)"
  shows "vs_lookup nv_store st (bootName n) EFIGlobalVariableGUID = None \<and>
    (\<forall>m. unat m < unat n \<longrightarrow> vs_lookup nv_store st (bootName m) EFIGlobalVariableGUID \<noteq> None) \<and>
    (\<exists>b order. Marshal_LoadOption lo = Ok b \<and> BootOrder nv_store st = Ok order \<and>
       BootOrder nv_store st' = Ok (order @ [n]) \<and>
       vs_lookup nv_store st' (bootName n) EFIGlobalVariableGUID = Some (global_var (bootName n) b)) \<and>
    (\<forall>n' g. g \<noteq> EFIGlobalVariableGUID \<or> n' \<noteq> bootName n \<and> n' \<noteq> ''BootOrder'' \<longrightarrow>
       vs_lookup nv_store st' n' g = vs_lookup nv_store st n' g)"
  using nv.AddBootEntry_Ok [OF assms] nv.lowestFree_Some [of st n] by blast

text \<open>Property C37. The slot scan is exact: it fails exactly when all 65536 entries exist, and
  AddBootEntry then reports the error and leaves the store as it is.\<close>

theorem AddBootEntry_full:
  "(lowestFreeBootNum nv_store st = None \<longleftrightarrow>
     (\<forall>n. vs_lookup nv_store st (bootName n) EFIGlobalVariableGUID \<noteq> None)) \<and>
   (lowestFreeBootNum nv_store st = None \<longrightarrow>
     AddBootEntry nv_store st lo = (st, Err (Leaf ''uefi: AddBootEntry: no free Boot#### slot'')))"
proof -
  have "lowestFreeBootNum nv_store st = None \<longrightarrow>
      AddBootEntry nv_store st lo = (st, Err (Leaf ''uefi: AddBootEntry: no free Boot#### slot''))"
    by (simp add: AddBootEntry_def)
  with nv.lowestFree_None [of st] show ?thesis by blast
qed

text \<open>Property C15. Boot entries read back: after a successful SetBootEntry of a load option
  whose encoding is at most 64 KiB and whose description has no NUL, BootEntry returns it.\<close>

theorem BootEntry_roundtrip:
  assumes "safeio_spec sio" and "SetBootEntry nv_store st n lo = (st', Ok ())"
    and "no_nul (loDescription lo)" and "valid_utf8 (loDescription lo)"
    and "\<forall>b. Marshal_LoadOption lo = Ok b \<longrightarrow> length b \<le> maxLoadOptionBytes"
  shows "BootEntry sio nv_store st' n = Ok lo"
proof -
  obtain b where b: "Marshal_LoadOption lo = Ok b"
    and l: "vs_lookup nv_store st' (bootName n) EFIGlobalVariableGUID = Some (global_var (bootName n) b)"
    using nv.SetBootEntry_lookup [OF assms(2)] by auto
  have "ParseLoadOption sio b = Ok lo"
    using LoadOption_Marshal_Parse [OF assms(1) b _ assms(3)] assms(4,5) b by (simp add: valid_utf8_def)
  then show ?thesis
    by (simp add: nv.BootEntry_lookup [OF l] global_var_def)
qed

text \<open>Property C36. The control variables read back what was set: BootOrder, BootNext,
  BootCurrent and Timeout; and after ClearBootNext there is no BootNext.\<close>

theorem boot_controls_roundtrip:
  "(SetBootOrder nv_store st order = (st', Ok ()) \<longrightarrow> BootOrder nv_store st' = Ok order) \<and>
   (SetBootNext nv_store st n = (st', Ok ()) \<longrightarrow> BootNext nv_store st' = Ok (Some n)) \<and>
   (SetBootCurrent nv_store st n = (st', Ok ()) \<longrightarrow> BootCurrent nv_store st' = Ok n) \<and>
   (SetTimeout nv_store st n = (st', Ok ()) \<longrightarrow> Timeout nv_store st' = Ok (Some n)) \<and>
   (ClearBootNext nv_store st = (st', Ok ()) \<longrightarrow> BootNext nv_store st' = Ok None)"
  using nv.SetBootOrder_BootOrder nv.boot_control_roundtrip nv.ClearBootNext_Ok by blast

lemma ListBootEntries_returns:
  "safeio_spec sio \<Longrightarrow> BootOrder vs st = Ok order \<Longrightarrow> \<exists>m ordered. ListBootEntries sio vs st = Ok (m, ordered)"
  using boot_entries_Ok [of sio "vsList vs st"] by (auto simp: ListBootEntries_def)

text \<open>Property C11. ListBootEntries fails exactly when BootOrder does, with its error. Otherwise it
  returns a map with exactly the numbers whose variable parses, each with a load option that
  such a variable holds, and a sequence that lists each of these numbers once: first those of
  BootOrder at their first occurrence, in its order, then the others ascending.\<close>

theorem ListBootEntries_complete:
  assumes "safeio_spec sio"
  shows "(\<forall>e. BootOrder nv_store st = Err e \<longrightarrow> ListBootEntries sio nv_store st = Err e) \<and>
    (\<forall>order. BootOrder nv_store st = Ok order \<longrightarrow>
    (\<exists>m ordered rs. ListBootEntries sio nv_store st = Ok (m, ordered) \<and>
      (\<forall>n. m n \<noteq> None \<longleftrightarrow> (\<exists>v \<in> set (vsList nv_store st). vName v = bootName n \<and> vGUID v = EFIGlobalVariableGUID \<and>
        (\<exists>lo. ParseLoadOption sio (vData v) = Ok lo))) \<and>
      (\<forall>n lo. m n = Some lo \<longrightarrow> (\<exists>v \<in> set (vsList nv_store st). vName v = bootName n \<and> vGUID v = EFIGlobalVariableGUID \<and>
        ParseLoadOption sio (vData v) = Ok lo)) \<and>
      distinct ordered \<and> set ordered = {n. m n \<noteq> None} \<and>
      ordered = rev (remdups (rev (filter (\<lambda>n. m n \<noteq> None) order))) @ rs \<and> sorted (map unat rs)))"
proof (intro conjI allI impI)
  fix e assume "BootOrder nv_store st = Err e"
  with boot_entries_Ok [OF assms, of "vsList nv_store st"]
  show "ListBootEntries sio nv_store st = Err e"
    by (auto simp: ListBootEntries_def)
next
  fix order assume o: "BootOrder nv_store st = Ok order"
  obtain m ordered where l: "ListBootEntries sio nv_store st = Ok (m, ordered)"
    using ListBootEntries_returns [OF assms o] by blast
  obtain rs where "ordered = rev (remdups (rev (filter (\<lambda>n. m n \<noteq> None) order))) @ rs \<and> sorted (map unat rs)"
    using ListBootEntries_Ok [OF assms l] o by auto
  with l ListBootEntries_Ok [OF assms l]
  show "\<exists>m ordered rs. ListBootEntries sio nv_store st = Ok (m, ordered) \<and>
      (\<forall>n. m n \<noteq> None \<longleftrightarrow> (\<exists>v \<in> set (vsList nv_store st). vName v = bootName n \<and> vGUID v = EFIGlobalVariableGUID \<and>
        (\<exists>lo. ParseLoadOption sio (vData v) = Ok lo))) \<and>
      (\<forall>n lo. m n = Some lo \<longrightarrow> (\<exists>v \<in> set (vsList nv_store st). vName v = bootName n \<and> vGUID v = EFIGlobalVariableGUID \<and>
        ParseLoadOption sio (vData v) = Ok lo)) \<and>
      distinct ordered \<and> set ordered = {n. m n \<noteq> None} \<and>
      ordered = rev (remdups (rev (filter (\<lambda>n. m n \<noteq> None) order))) @ rs \<and> sorted (map unat rs)"
    by blast
qed

subsection \<open>Witnesses\<close>

lemma bootName_ascii: "\<forall>c \<in> set (bootName n). of_char c < (0x80 :: nat)"
proof -
  have "of_char (upper_digit d) < (0x80 :: nat)" if "d < 16" for d
    using that by (simp add: of_char_upper_digit digit_rune_def)
  moreover have "unat n div 4096 < 16"
    using unat_u16_less [of n] by (simp add: less_mult_imp_div_less)
  ultimately show ?thesis
    by (auto simp: bootName_digits)
qed

lemma boot_record_length:
  "length d \<le> 100 \<Longrightarrow> length (encodeVariable (global_var (bootName n) d) False) \<le> 160"
  "length d \<le> 100 \<Longrightarrow> length (encodeVariable (global_var ''BootOrder'' d) False) \<le> 160"
  using align4_bounds(2) [of "raw_size (global_var (bootName n) d) False"]
    align4_bounds(2) [of "raw_size (global_var ''BootOrder'' d) False"]
  by (simp_all add: length_encodeVariable raw_size_def global_var_def length_Encode_ascii bootName_ascii length_bootName
      hdr_size_def nv_consts)

lemma demo_boot_entry:
  obtains w where "SetBootEntry nv_store (demo_os, demo_store) 0 demo_option = ((w, demo_store\<lparr>vars := [global_var (bootName 0)
      [1, 0, 0, 0, 10, 0, 0x41, 0, 0, 0, 0x01, 0x01, 0x06, 0, 0x00, 0x1f, 0x7F, 0xFF, 4, 0, 7]]\<rparr>), Ok ())"
    "quiet w" "\<exists>img. backed w (demo_store\<lparr>vars := [global_var (bootName 0)
      [1, 0, 0, 0, 10, 0, 0x41, 0, 0, 0, 0x01, 0x01, 0x06, 0, 0x00, 0x1f, 0x7F, 0xFF, 4, 0, 7]]\<rparr>) img"
proof -
  let ?d = "[1, 0, 0, 0, 10, 0, 0x41, 0, 0, 0, 0x01, 0x01, 0x06, 0, 0x00, 0x1f, 0x7F, 0xFF, 4, 0, 7] :: bytes"
  obtain img where b: "backed demo_os demo_store img"
    using synced_backed [OF demo_synced(2)] by blast
  have vs: "vars_set (vars demo_store) (global_var (bootName 0) ?d) = [global_var (bootName 0) ?d]"
    by (simp add: vars_set_def demo_store_def)
  have "StoreHeaderSize + length (serializeVars [global_var (bootName 0) ?d] (authVars demo_store)) \<le> unat (storeSize demo_store)"
    using boot_record_length(1) [of ?d 0] by (simp add: serializeVars_def demo_store_def StoreHeaderSize_def)
  from nv_set_fits [OF demo_synced(1) b, of "global_var (bootName 0) ?d", unfolded vs, OF this] that show ?thesis
    by (auto simp: SetBootEntry_def demo_option_wire setGlobal_def global_var_def [symmetric])
qed

lemma demo_free: "lowestFreeBootNum nv_store (demo_os, demo_store) = Some 0"
proof -
  have "\<not> (\<forall>n. vs_lookup nv_store (demo_os, demo_store) (bootName n) EFIGlobalVariableGUID \<noteq> None)"
    by (simp add: vs_lookup_def demo_store_def)
  then have "lowestFreeBootNum nv_store (demo_os, demo_store) \<noteq> None"
    using nv.lowestFree_None [of "(demo_os, demo_store)"] by blast
  then obtain n where n: "lowestFreeBootNum nv_store (demo_os, demo_store) = Some n"
    by auto
  have "vs_lookup nv_store (demo_os, demo_store) (bootName 0) EFIGlobalVariableGUID = None"
    by (simp add: vs_lookup_def demo_store_def)
  with nv.lowestFree_Some [OF n] have "\<not> unat (0 :: u16) < unat n"
    by metis
  moreover have "unat (0 :: u16) = 0"
    by simp
  ultimately have "unat n = 0"
    by (metis neq0_conv)
  then have "n = 0"
    by (simp add: unat_eq_0)
  with n show ?thesis by simp
qed

theorem AddBootEntry_behaviour_witness:
  "\<exists>st'. AddBootEntry nv_store (demo_os, demo_store) demo_option = (st', Ok 0) \<and> BootOrder nv_store st' = Ok [0]"
proof -
  let ?d = "[1, 0, 0, 0, 10, 0, 0x41, 0, 0, 0, 0x01, 0x01, 0x06, 0, 0x00, 0x1f, 0x7F, 0xFF, 4, 0, 7] :: bytes"
  let ?s = "demo_store\<lparr>vars := [global_var (bootName 0) ?d]\<rparr>"
  obtain w img where e: "SetBootEntry nv_store (demo_os, demo_store) 0 demo_option = ((w, ?s), Ok ())"
    and q: "quiet w" and b: "backed w ?s img"
    using demo_boot_entry by blast
  let ?o = "global_var ''BootOrder'' (le16_bytes 0)"
  have none: "vs_lookup nv_store (w, ?s) ''BootOrder'' EFIGlobalVariableGUID = None"
    by (simp add: vs_lookup_def same_var_def global_var_def)
  have vs: "vars_set (vars ?s) ?o = [global_var (bootName 0) ?d, ?o]"
    by (simp add: vars_set_def same_var_def global_var_def)
  have "StoreHeaderSize + length (serializeVars (vars_set (vars ?s) ?o) (authVars ?s)) \<le> unat (storeSize ?s)"
    unfolding vs using boot_record_length(1) [of ?d 0] boot_record_length(2) [of "le16_bytes 0"]
    by (simp add: serializeVars_def demo_store_def StoreHeaderSize_def)
  from nv_set_fits [OF q b this] obtain st' where "vsSet nv_store (w, ?s) ?o = (st', Ok ())"
    by blast
  then have add: "AddBootEntry nv_store (demo_os, demo_store) demo_option = (st', Ok 0)"
    using none by (simp add: AddBootEntry_def demo_free e nv.BootOrder_eq SetBootOrder_def setGlobal_def global_var_def)
  moreover have "BootOrder nv_store (demo_os, demo_store) = Ok []"
    by (simp add: nv.BootOrder_eq vs_lookup_def demo_store_def)
  ultimately show ?thesis
    using AddBootEntry_behaviour [OF add] by auto
qed

theorem BootEntry_roundtrip_witness:
  "\<exists>st'. SetBootEntry nv_store (demo_os, demo_store) 0 demo_option = (st', Ok ()) \<and>
     BootEntry counting_safeio nv_store st' 0 = Ok demo_option"
proof -
  obtain st' where e: "SetBootEntry nv_store (demo_os, demo_store) 0 demo_option = (st', Ok ())"
    using demo_boot_entry by blast
  have "no_nul (loDescription demo_option)" "valid_utf8 (loDescription demo_option)"
    by (simp_all add: no_nul_def demo_option_def runes_of_ascii utf16_Encode_def utf16_units_def scalar_def valid_utf8_ascii)
  from BootEntry_roundtrip [OF counting_safeio_spec e this] e show ?thesis
    by (simp add: demo_option_wire maxLoadOptionBytes_def)
qed

definition full_store :: store where
  "full_store = demo_store\<lparr>vars := map (\<lambda>i. global_var (bootName (of_nat i)) []) [0..<0x10000]\<rparr>"

theorem AddBootEntry_full_witness:
  "AddBootEntry nv_store (demo_os, full_store) demo_option =
     ((demo_os, full_store), Err (Leaf ''uefi: AddBootEntry: no free Boot#### slot''))"
proof -
  have "vs_lookup nv_store (demo_os, full_store) (bootName n) EFIGlobalVariableGUID \<noteq> None" for n
  proof -
    have "unat n < 0x10000"
      using unat_u16_less [of n] by simp
    then have "global_var (bootName (of_nat (unat n))) [] \<in> set (vsList nv_store (demo_os, full_store))"
      by (auto simp: full_store_def intro!: image_eqI [of _ _ "unat n"])
    then show ?thesis
      unfolding nv.lookup_dom by (intro bexI) (simp_all add: global_var_def)
  qed
  with AddBootEntry_full [of "(demo_os, full_store)" demo_option] show ?thesis by blast
qed

theorem boot_controls_roundtrip_witness:
  "\<exists>st'. SetBootOrder nv_store (demo_os, demo_store) [3, 1] = (st', Ok ()) \<and> BootOrder nv_store st' = Ok [3, 1]"
proof -
  let ?o = "global_var ''BootOrder'' (le16_bytes 3 @ le16_bytes 1)"
  obtain img where b: "backed demo_os demo_store img"
    using synced_backed [OF demo_synced(2)] by blast
  have "StoreHeaderSize + length (serializeVars (vars_set (vars demo_store) ?o) (authVars demo_store)) \<le> unat (storeSize demo_store)"
    using boot_record_length(2) [of "le16_bytes 3 @ le16_bytes 1"]
    by (simp add: serializeVars_def vars_set_def demo_store_def StoreHeaderSize_def)
  from nv_set_fits [OF demo_synced(1) b this] obtain st' where "SetBootOrder nv_store (demo_os, demo_store) [3, 1] = (st', Ok ())"
    by (auto simp: SetBootOrder_def setGlobal_def global_var_def)
  with boot_controls_roundtrip show ?thesis by blast
qed

theorem ListBootEntries_complete_witness:
  "\<exists>m ordered. ListBootEntries counting_safeio nv_store (demo_os, demo_store\<lparr>vars := [global_var (bootName 5)
      [1, 0, 0, 0, 10, 0, 0x41, 0, 0, 0, 0x01, 0x01, 0x06, 0, 0x00, 0x1f, 0x7F, 0xFF, 4, 0, 7]]\<rparr>) = Ok (m, ordered) \<and>
     5 \<in> set ordered \<and> m 5 = Some demo_option"
proof -
  let ?v = "global_var (bootName 5)
      [1, 0, 0, 0, 10, 0, 0x41, 0, 0, 0, 0x01, 0x01, 0x06, 0, 0x00, 0x1f, 0x7F, 0xFF, 4, 0, 7]"
  let ?st = "(demo_os, demo_store\<lparr>vars := [?v]\<rparr>)"
  have o: "BootOrder nv_store ?st = Ok []"
    by (simp add: nv.BootOrder_eq vs_lookup_def same_var_def global_var_def)
  from ListBootEntries_complete [OF counting_safeio_spec, of ?st] o
  obtain m ordered where l: "ListBootEntries counting_safeio nv_store ?st = Ok (m, ordered)"
    and c1: "\<forall>n. m n \<noteq> None \<longleftrightarrow> (\<exists>v \<in> set (vsList nv_store ?st). vName v = bootName n \<and> vGUID v = EFIGlobalVariableGUID \<and>
        (\<exists>lo. ParseLoadOption counting_safeio (vData v) = Ok lo))"
    and c2: "\<forall>n lo. m n = Some lo \<longrightarrow> (\<exists>v \<in> set (vsList nv_store ?st). vName v = bootName n \<and> vGUID v = EFIGlobalVariableGUID \<and>
        ParseLoadOption counting_safeio (vData v) = Ok lo)"
    and c3: "set ordered = {n. m n \<noteq> None}"
    by (elim conjE) blast
  have v: "set (vsList nv_store ?st) = {?v}" "ParseLoadOption counting_safeio (vData ?v) = Ok demo_option"
    by (simp_all add: global_var_def demo_option_parse)
  have n: "vName ?v = bootName 5" "vGUID ?v = EFIGlobalVariableGUID"
    by (simp_all add: global_var_def)
  have m: "m 5 \<noteq> None"
    unfolding c1 [rule_format] v(1) using n v(2) by blast
  then obtain lo where lo: "m 5 = Some lo"
    by blast
  with c2 v have "lo = demo_option"
    by fastforce
  with c3 have "5 \<in> set ordered" "m 5 = Some demo_option"
    using lo by simp_all
  with l show ?thesis by blast
qed

end
