(* ===== verification/Secure_Boot.thy ===== *)
theory Secure_Boot
  imports Store_Runs
begin

text \<open>
  Secure Boot enrolment (secureboot.go): the EFI_SIGNATURE_LIST around one certificate, with its
  32-bit size arithmetic and its bounds-checked writes, and the enrolment of db, KEK and PK in
  this order over any \<open>VariableStore\<close>. That PK comes last matters because writing PK activates
  Secure Boot: the lemmas show that PK changes only after db and KEK are in place, from the
  contract \<open>framed_store\<close>, which adds to \<open>variable_store\<close> that a write, even a failed one, leaves
  every other key alone.
\<close>

definition EFICertX509GUID :: GUID where
  "EFICertX509GUID = B16 0xa1 0x59 0xc0 0xa5 0xe4 0x94 0xa7 0x4a
     0x87 0xb5 0xab 0x15 0x5c 0x2b 0xf0 0x72"

definition secureBootAttrs :: Attributes where
  "secureBootAttrs = AttrNonVolatile OR AttrBootServiceAccess OR AttrRuntimeAccess"

definition BuildEFISignatureList :: "GUID \<Rightarrow> bytes \<Rightarrow> bytes res" where
  "BuildEFISignatureList ownerGUID certDER =
     (let sigSize = (of_nat (16 + length certDER) :: u32);
          listSize = 28 + sigSize;
          buf = make_bytes (unat listSize) in
      bindR (copy_range buf 0 16 (bytes_of16 EFICertX509GUID)) (\<lambda>buf.
      bindR (put_bytes buf 16 (le32_bytes listSize)) (\<lambda>buf.
      bindR (put_bytes buf 20 (le32_bytes 0)) (\<lambda>buf.
      bindR (put_bytes buf 24 (le32_bytes sigSize)) (\<lambda>buf.
      bindR (copy_range buf 28 44 (bytes_of16 ownerGUID)) (\<lambda>buf.
      copy_at buf 44 certDER))))))"

record SecureBootKeys =
  PK :: bytes
  KEK :: bytes
  DB :: bytes

definition enrollOne :: "'s VariableStore \<Rightarrow> 's \<Rightarrow> string \<Rightarrow> GUID \<Rightarrow> bytes \<Rightarrow> 's \<times> unit res" where
  "enrollOne vs st name ns certDER =
     (case BuildEFISignatureList EFIGlobalVariableGUID certDER of
        Panic \<Rightarrow> (st, Panic)
      | Err e \<Rightarrow> (st, Err e)
      | Ok sl \<Rightarrow>
          (case vsSet vs st \<lparr> vName = name, vGUID = ns, vAttributes = secureBootAttrs, vData = sl \<rparr> of
             (st', r) \<Rightarrow> (st', wrap_err ''uefi: enroll %s: %w'' r)))"

text \<open>The loop over the entries, which stops at the first failure.\<close>

fun enroll_loop :: "'s VariableStore \<Rightarrow> 's \<Rightarrow> (string \<times> GUID \<times> bytes) list \<Rightarrow> 's \<times> unit res" where
  "enroll_loop vs st [] = (st, Ok ())"
| "enroll_loop vs st ((name, ns, cert) # es) =
     (case enrollOne vs st name ns cert of
        (st', Ok _) \<Rightarrow> enroll_loop vs st' es
      | (st', Err e) \<Rightarrow> (st', Err e)
      | (st', Panic) \<Rightarrow> (st', Panic))"

definition EnrollSecureBootKeys :: "'s VariableStore \<Rightarrow> 's \<Rightarrow> SecureBootKeys \<Rightarrow> 's \<times> unit res" where
  "EnrollSecureBootKeys vs st keys =
     enroll_loop vs st
       [(''db'', EFIImageSecurityDatabaseGUID, DB keys),
        (''KEK'', EFIGlobalVariableGUID, KEK keys),
        (''PK'', EFIGlobalVariableGUID, PK keys)]"

subsection \<open>The signature list\<close>

text \<open>The list of the UEFI specification, for a certificate whose sizes fit.\<close>

definition signature_list :: "GUID \<Rightarrow> bytes \<Rightarrow> bytes" where
  "signature_list owner cert =
     bytes_of16 EFICertX509GUID @ le32_bytes (of_nat (44 + length cert)) @ le32_bytes 0 @
     le32_bytes (of_nat (16 + length cert)) @ bytes_of16 owner @ cert"

lemma list_size: "unat (28 + of_nat (16 + n) :: u32) = (44 + n) mod 2 ^ 32"
proof -
  have "(28 + of_nat (16 + n) :: u32) = of_nat (44 + n)"
    by simp
  then show ?thesis
    by (simp only: unat_of_nat) simp
qed

lemma BuildEFISignatureList_eq:
  "BuildEFISignatureList owner cert =
     (let n = (44 + length cert) mod 2 ^ 32 in
      if n < 44 then Panic else Ok (signature_list owner (take (n - 44) cert)))"
proof (cases "(44 + length cert) mod 2 ^ 32 < 44")
  case True
  then show ?thesis
    unfolding BuildEFISignatureList_def Let_def list_size
    by (auto simp: put_simps not_le)
next
  case False
  define n where "n = (44 + length cert) mod 2 ^ 32"
  have n: "44 \<le> n" "n < 2 ^ 32" "n - 44 \<le> length cert"
    using False mod_less_eq_dividend [of "44 + length cert" "2 ^ 32"] by (simp_all add: n_def)
  have w: "(28 + of_nat (16 + length cert) :: u32) = of_nat n"
    unfolding word_unat_eq_iff list_size using n(2) by (simp add: n_def unat_of_nat)
  then have "(of_nat (16 + length cert) :: u32) = of_nat n - 28"
    by (simp add: algebra_simps)
  also have "\<dots> = of_nat (n - 28)"
    using n(1) by simp
  finally have sz: "(of_nat (16 + length cert) :: u32) = of_nat (n - 28)" .
  have un: "unat (of_nat n :: u32) = n"
    using n(2) by (rule unat_of_nat_u32)
  have buf: "make_bytes n = make_bytes 44 @ make_bytes (n - 44)"
    using n(1) by (simp flip: replicate_add)
  have "copy_bytes (make_bytes (n - 44)) cert = take (n - 44) cert"
    using n(3) by (simp add: copy_bytes_def)
  moreover have "44 + (n - 44) = n" "16 + (n - 44) = n - 28"
    using n(1) by simp_all
  ultimately show ?thesis
    using False n unfolding BuildEFISignatureList_def Let_def w sz un buf n_def [symmetric]
    by (simp add: put_simps copy_at_def signature_list_def min_def un)
qed

subsection \<open>Enrolment\<close>

text \<open>The variable that \<open>enrollOne\<close> writes, for a certificate whose sizes fit.\<close>

definition key_var :: "string \<Rightarrow> GUID \<Rightarrow> bytes \<Rightarrow> Variable" where
  "key_var name ns cert =
     \<lparr> vName = name, vGUID = ns, vAttributes = secureBootAttrs, vData = signature_list EFIGlobalVariableGUID cert \<rparr>"

definition keys_fit :: "SecureBootKeys \<Rightarrow> bool" where
  "keys_fit keys \<longleftrightarrow> 44 + length (DB keys) < 2 ^ 32 \<and> 44 + length (KEK keys) < 2 ^ 32 \<and> 44 + length (PK keys) < 2 ^ 32"

lemma BuildEFISignatureList_fits:
  "44 + length cert < 2 ^ 32 \<Longrightarrow> BuildEFISignatureList owner cert = Ok (signature_list owner cert)"
  by (simp add: BuildEFISignatureList_eq)

lemma enrollOne_fits:
  "44 + length cert < 2 ^ 32 \<Longrightarrow>
     enrollOne vs st name ns cert =
       (case vsSet vs st (key_var name ns cert) of (st', r) \<Rightarrow> (st', wrap_err ''uefi: enroll %s: %w'' r))"
  by (simp add: enrollOne_def BuildEFISignatureList_fits key_var_def)

context framed_store
begin

lemma enrollOne_frame:
  assumes "enrollOne vs st name ns cert = (st', r)" and "n \<noteq> name \<or> g \<noteq> ns"
  shows "vs_lookup vs st' n g = vs_lookup vs st n g"
proof (cases "BuildEFISignatureList EFIGlobalVariableGUID cert")
  case (Ok sl)
  with assms(1) obtain r' where
    "vsSet vs st \<lparr> vName = name, vGUID = ns, vAttributes = secureBootAttrs, vData = sl \<rparr> = (st', r')"
    by (auto simp: enrollOne_def split: prod.splits)
  then show ?thesis
    using assms(2) by (auto dest: set_frame)
qed (use assms(1) in \<open>simp_all add: enrollOne_def\<close>)

lemma enrollOne_Ok:
  assumes "44 + length cert < 2 ^ 32" and "enrollOne vs st name ns cert = (st', Ok ())"
  shows "vs_lookup vs st' name ns = Some (key_var name ns cert)"
proof -
  have "vsSet vs st (key_var name ns cert) = (st', Ok ())"
    using assms by (auto simp: enrollOne_fits wrap_err_Ok_iff split: prod.splits)
  from set_lookup [OF this] show ?thesis
    by (simp add: key_var_def)
qed

lemma Enroll_cases:
  assumes "EnrollSecureBootKeys vs st keys = (st', r)"
  obtains (db) "enrollOne vs st ''db'' EFIImageSecurityDatabaseGUID (DB keys) = (st', r)" "r \<noteq> Ok ()"
  | (kek) st1 where "enrollOne vs st ''db'' EFIImageSecurityDatabaseGUID (DB keys) = (st1, Ok ())"
      "enrollOne vs st1 ''KEK'' EFIGlobalVariableGUID (KEK keys) = (st', r)" "r \<noteq> Ok ()"
  | (pk) st1 st2 where "enrollOne vs st ''db'' EFIImageSecurityDatabaseGUID (DB keys) = (st1, Ok ())"
      "enrollOne vs st1 ''KEK'' EFIGlobalVariableGUID (KEK keys) = (st2, Ok ())"
      "enrollOne vs st2 ''PK'' EFIGlobalVariableGUID (PK keys) = (st', r)"
  using assms unfolding EnrollSecureBootKeys_def
  by (auto split: prod.splits res.splits)

lemma enroll_loop_frame:
  "enroll_loop vs st es = (st', r) \<Longrightarrow> (n, g) \<notin> (\<lambda>(name, ns, c). (name, ns)) ` set es \<Longrightarrow>
     vs_lookup vs st' n g = vs_lookup vs st n g"
proof (induction es arbitrary: st)
  case (Cons e es)
  obtain name ns c where e: "e = (name, ns, c)"
    by (cases e) auto
  obtain st1 r1 where one: "enrollOne vs st name ns c = (st1, r1)"
    by fastforce
  then have "vs_lookup vs st1 n g = vs_lookup vs st n g"
    using Cons.prems(2) e by (auto intro: enrollOne_frame)
  then show ?case
    using Cons e one by (auto split: res.splits)
qed simp

lemma Enroll_frame:
  assumes "EnrollSecureBootKeys vs st keys = (st', r)"
    and "(n, g) \<notin> {(''db'', EFIImageSecurityDatabaseGUID), (''KEK'', EFIGlobalVariableGUID), (''PK'', EFIGlobalVariableGUID)}"
  shows "vs_lookup vs st' n g = vs_lookup vs st n g"
  using enroll_loop_frame [OF assms(1) [unfolded EnrollSecureBootKeys_def], of n g] assms(2) by simp

text \<open>PK is written last: it is as before unless db and KEK are both in place.\<close>

lemma Enroll_PK_last:
  assumes "keys_fit keys" and "EnrollSecureBootKeys vs st keys = (st', r)"
    and "vs_lookup vs st' ''PK'' EFIGlobalVariableGUID \<noteq> vs_lookup vs st ''PK'' EFIGlobalVariableGUID"
  shows "vs_lookup vs st' ''db'' EFIImageSecurityDatabaseGUID = Some (key_var ''db'' EFIImageSecurityDatabaseGUID (DB keys)) \<and>
    vs_lookup vs st' ''KEK'' EFIGlobalVariableGUID = Some (key_var ''KEK'' EFIGlobalVariableGUID (KEK keys))"
  using assms(2)
proof (cases rule: Enroll_cases)
  case db
  then show ?thesis
    using assms(3) enrollOne_frame [OF db(1), of "''PK''" EFIGlobalVariableGUID] by simp
next
  case (kek st1)
  then show ?thesis
    using assms(3) enrollOne_frame [OF kek(1), of "''PK''" EFIGlobalVariableGUID]
      enrollOne_frame [OF kek(2), of "''PK''" EFIGlobalVariableGUID] by simp
next
  case (pk st1 st2)
  then have "vs_lookup vs st1 ''db'' EFIImageSecurityDatabaseGUID = Some (key_var ''db'' EFIImageSecurityDatabaseGUID (DB keys))"
    "vs_lookup vs st2 ''KEK'' EFIGlobalVariableGUID = Some (key_var ''KEK'' EFIGlobalVariableGUID (KEK keys))"
    using assms(1) by (auto simp: keys_fit_def intro: enrollOne_Ok)
  then show ?thesis
    using enrollOne_frame [OF pk(2), of "''db''" EFIImageSecurityDatabaseGUID]
      enrollOne_frame [OF pk(3), of "''db''" EFIImageSecurityDatabaseGUID]
      enrollOne_frame [OF pk(3), of "''KEK''" EFIGlobalVariableGUID] by simp
qed

lemma Enroll_Ok:
  assumes "keys_fit keys" and "EnrollSecureBootKeys vs st keys = (st', Ok ())"
  shows "vs_lookup vs st' ''db'' EFIImageSecurityDatabaseGUID = Some (key_var ''db'' EFIImageSecurityDatabaseGUID (DB keys)) \<and>
    vs_lookup vs st' ''KEK'' EFIGlobalVariableGUID = Some (key_var ''KEK'' EFIGlobalVariableGUID (KEK keys)) \<and>
    vs_lookup vs st' ''PK'' EFIGlobalVariableGUID = Some (key_var ''PK'' EFIGlobalVariableGUID (PK keys))"
  using assms(2)
proof (cases rule: Enroll_cases)
  case (pk st1 st2)
  then have "vs_lookup vs st1 ''db'' EFIImageSecurityDatabaseGUID = Some (key_var ''db'' EFIImageSecurityDatabaseGUID (DB keys))"
    "vs_lookup vs st2 ''KEK'' EFIGlobalVariableGUID = Some (key_var ''KEK'' EFIGlobalVariableGUID (KEK keys))"
    "vs_lookup vs st' ''PK'' EFIGlobalVariableGUID = Some (key_var ''PK'' EFIGlobalVariableGUID (PK keys))"
    using assms(1) by (auto simp: keys_fit_def intro: enrollOne_Ok)
  then show ?thesis
    using enrollOne_frame [OF pk(2), of "''db''" EFIImageSecurityDatabaseGUID]
      enrollOne_frame [OF pk(3), of "''db''" EFIImageSecurityDatabaseGUID]
      enrollOne_frame [OF pk(3), of "''KEK''" EFIGlobalVariableGUID] by simp
qed simp_all

end


subsection \<open>Properties over the file store\<close>

text \<open>Property C22. BuildEFISignatureList, for every owner and certificate: the certificate wrapped
  in the list of the UEFI specification, with both sizes; when 44 + len(certDER) does not fit into 32 bits
  the size wraps, and the result is a list around a truncated certificate, or a panic when not even the
  header fits into the wrapped size.\<close>

theorem BuildEFISignatureList_equiv:
  "BuildEFISignatureList owner cert =
     (let n = (44 + length cert) mod 2 ^ 32 in
      if n < 44 then Panic else Ok (signature_list owner (take (n - 44) cert)))"
  by (rule BuildEFISignatureList_eq)

text \<open>Property C8. PK is enrolled last: in whatever way EnrollSecureBootKeys ends, system-call
  failures and a full store included, PK is as it was before unless db and KEK already hold
  the signature lists of their certificates; and no other variable has changed.\<close>

theorem Enroll_PK_only_after_db_and_KEK:
  assumes "keys_fit keys" and "EnrollSecureBootKeys nv_store st keys = (st', r)"
  shows "(vs_lookup nv_store st' ''PK'' EFIGlobalVariableGUID = vs_lookup nv_store st ''PK'' EFIGlobalVariableGUID \<or>
      vs_lookup nv_store st' ''db'' EFIImageSecurityDatabaseGUID = Some (key_var ''db'' EFIImageSecurityDatabaseGUID (DB keys)) \<and>
      vs_lookup nv_store st' ''KEK'' EFIGlobalVariableGUID = Some (key_var ''KEK'' EFIGlobalVariableGUID (KEK keys))) \<and>
    (\<forall>n g. (n, g) \<notin> {(''db'', EFIImageSecurityDatabaseGUID), (''KEK'', EFIGlobalVariableGUID), (''PK'', EFIGlobalVariableGUID)} \<longrightarrow>
      vs_lookup nv_store st' n g = vs_lookup nv_store st n g)"
  using nvf.Enroll_PK_last [OF assms] nvf.Enroll_frame [OF assms(2)] by blast

lemma length_signature_list: "length (signature_list owner cert) = 44 + length cert"
  by (simp add: signature_list_def)

lemma key_record_length:
  assumes "n \<in> {''db'', ''KEK'', ''PK''}" and "length c < 2 ^ 31"
  shows "length (encodeVariable (key_var n g c) a) \<le> length c + 120"
proof -
  have "raw_size (key_var n g c) a \<le> length c + 116"
    using assms(1) by (auto simp: raw_size_def key_var_def hdr_size_def nv_consts length_Encode_ascii length_signature_list)
  then show ?thesis
    using align4_bounds(2) [of "raw_size (key_var n g c) a"] assms(2) by (subst length_encodeVariable) simp_all
qed

lemma vars_set_size:
  "length (serializeVars (vars_set vs v) a) \<le> length (serializeVars vs a) + length (encodeVariable v a)"
  unfolding vars_set_def by (induction vs) (auto simp: serializeVars_def)

lemma nv_set_room:
  assumes "quiet w" and "backed w s img"
    and "StoreHeaderSize + length (serializeVars (vars s) (authVars s)) + length (encodeVariable v (authVars s)) + k
      \<le> unat (storeSize s)"
  obtains w' s' img' where "vsSet nv_store (w, s) v = ((w', s'), Ok ())" "quiet w'" "backed w' s' img'"
    "StoreHeaderSize + length (serializeVars (vars s') (authVars s')) + k \<le> unat (storeSize s')" "authVars s' = authVars s"
proof -
  note sz = vars_set_size [of "vars s" v "authVars s"]
  with assms(3) have "StoreHeaderSize + length (serializeVars (vars_set (vars s) v) (authVars s)) \<le> unat (storeSize s)"
    by simp
  from nv_set_fits [OF assms(1,2) this] sz assms(3) show ?thesis
    by (fastforce intro: that)
qed

lemma Enroll_room:
  assumes fit: "keys_fit keys" and q: "quiet w" and b: "backed w s img"
    and room: "StoreHeaderSize + length (serializeVars (vars s) (authVars s)) +
      length (encodeVariable (key_var ''db'' EFIImageSecurityDatabaseGUID (DB keys)) (authVars s)) +
      length (encodeVariable (key_var ''KEK'' EFIGlobalVariableGUID (KEK keys)) (authVars s)) +
      length (encodeVariable (key_var ''PK'' EFIGlobalVariableGUID (PK keys)) (authVars s)) \<le> unat (storeSize s)"
  shows "\<exists>st'. EnrollSecureBootKeys nv_store (w, s) keys = (st', Ok ())"
proof -
  let ?db = "key_var ''db'' EFIImageSecurityDatabaseGUID (DB keys)" and ?kek = "key_var ''KEK'' EFIGlobalVariableGUID (KEK keys)"
    and ?pk = "key_var ''PK'' EFIGlobalVariableGUID (PK keys)"
  have r1: "StoreHeaderSize + length (serializeVars (vars s) (authVars s)) + length (encodeVariable ?db (authVars s)) +
       (length (encodeVariable ?kek (authVars s)) + length (encodeVariable ?pk (authVars s))) \<le> unat (storeSize s)"
    using room by simp
  obtain w1 s1 img1 where 1: "vsSet nv_store (w, s) ?db = ((w1, s1), Ok ())" "quiet w1" "backed w1 s1 img1"
    "StoreHeaderSize + length (serializeVars (vars s1) (authVars s1)) +
       (length (encodeVariable ?kek (authVars s)) + length (encodeVariable ?pk (authVars s))) \<le> unat (storeSize s1)"
    "authVars s1 = authVars s"
    by (rule nv_set_room [OF q b r1])
  then have r2: "StoreHeaderSize + length (serializeVars (vars s1) (authVars s1)) + length (encodeVariable ?kek (authVars s1)) +
       length (encodeVariable ?pk (authVars s)) \<le> unat (storeSize s1)"
    by simp
  obtain w2 s2 img2 where 2: "vsSet nv_store (w1, s1) ?kek = ((w2, s2), Ok ())" "quiet w2" "backed w2 s2 img2"
    "StoreHeaderSize + length (serializeVars (vars s2) (authVars s2)) + length (encodeVariable ?pk (authVars s)) \<le> unat (storeSize s2)"
    "authVars s2 = authVars s1"
    by (rule nv_set_room [OF 1(2,3) r2])
  with 1(5) have r3: "StoreHeaderSize + length (serializeVars (vars s2) (authVars s2)) + length (encodeVariable ?pk (authVars s2)) + 0
      \<le> unat (storeSize s2)"
    by simp
  obtain w3 s3 where "vsSet nv_store (w2, s2) ?pk = ((w3, s3), Ok ())"
    by (rule nv_set_room [OF 2(2,3) r3])
  with 1(1) 2(1) fit show ?thesis
    by (simp add: EnrollSecureBootKeys_def enrollOne_fits keys_fit_def)
qed

lemma enrollOne_vars:
  assumes "44 + length cert < 2 ^ 32" and "enrollOne nv_store (w, s) name ns cert = ((w', s'), Ok ())"
  shows "s' = s\<lparr>vars := vars_set (vars s) (key_var name ns cert)\<rparr>"
  using assms by (auto simp: enrollOne_fits wrap_err_Ok_iff vars_set_def key_var_def split: prod.splits dest!: Set_var_Ok_vars)

lemma Enroll_vars:
  assumes fit: "keys_fit keys" and e: "EnrollSecureBootKeys nv_store (w, s) keys = ((w', s'), Ok ())"
  shows "vars s' = vars_set (vars_set (vars_set (vars s) (key_var ''db'' EFIImageSecurityDatabaseGUID (DB keys)))
    (key_var ''KEK'' EFIGlobalVariableGUID (KEK keys))) (key_var ''PK'' EFIGlobalVariableGUID (PK keys))"
  using e
proof (cases rule: nvf.Enroll_cases)
  case (pk st1 st2)
  obtain w1 s1 w2 s2 where st: "st1 = (w1, s1)" "st2 = (w2, s2)"
    by (cases st1, cases st2)
  from fit have "44 + length (DB keys) < 2 ^ 32" "44 + length (KEK keys) < 2 ^ 32" "44 + length (PK keys) < 2 ^ 32"
    by (simp_all add: keys_fit_def)
  from this [THEN enrollOne_vars] pk show ?thesis
    unfolding st by fastforce
qed simp_all

text \<open>Property C23. Enrolment goes through: in a quiet system, with the store in memory equal to its
  file and room for the three records behind the old ones, EnrollSecureBootKeys succeeds,
  and the three variables then hold the signature lists.\<close>

theorem Enroll_succeeds:
  assumes "keys_fit keys" and "quiet w" and "synced sio w s"
    and "StoreHeaderSize + length (serializeVars (vars s) (authVars s)) +
      length (encodeVariable (key_var ''db'' EFIImageSecurityDatabaseGUID (DB keys)) (authVars s)) +
      length (encodeVariable (key_var ''KEK'' EFIGlobalVariableGUID (KEK keys)) (authVars s)) +
      length (encodeVariable (key_var ''PK'' EFIGlobalVariableGUID (PK keys)) (authVars s)) \<le> unat (storeSize s)"
  shows "\<exists>st'. EnrollSecureBootKeys nv_store (w, s) keys = (st', Ok ()) \<and>
    vs_lookup nv_store st' ''db'' EFIImageSecurityDatabaseGUID = Some (key_var ''db'' EFIImageSecurityDatabaseGUID (DB keys)) \<and>
    vs_lookup nv_store st' ''KEK'' EFIGlobalVariableGUID = Some (key_var ''KEK'' EFIGlobalVariableGUID (KEK keys)) \<and>
    vs_lookup nv_store st' ''PK'' EFIGlobalVariableGUID = Some (key_var ''PK'' EFIGlobalVariableGUID (PK keys))"
proof -
  obtain img where "backed w s img"
    using synced_backed [OF assms(3)] by blast
  then obtain st' where "EnrollSecureBootKeys nv_store (w, s) keys = (st', Ok ())"
    using Enroll_room [OF assms(1,2) _ assms(4)] by blast
  with nvf.Enroll_Ok [OF assms(1) this] show ?thesis
    by blast
qed

subsection \<open>Witnesses\<close>

definition demo_keys :: SecureBootKeys where
  "demo_keys = \<lparr> PK = [1], KEK = [2, 2], DB = [3, 3, 3] \<rparr>"

lemma demo_room:
  "keys_fit demo_keys"
  "StoreHeaderSize + length (serializeVars (vars demo_store) (authVars demo_store)) +
      length (encodeVariable (key_var ''db'' EFIImageSecurityDatabaseGUID (DB demo_keys)) (authVars demo_store)) +
      length (encodeVariable (key_var ''KEK'' EFIGlobalVariableGUID (KEK demo_keys)) (authVars demo_store)) +
      length (encodeVariable (key_var ''PK'' EFIGlobalVariableGUID (PK demo_keys)) (authVars demo_store)) \<le> unat (storeSize demo_store)"
  by (simp_all add: keys_fit_def demo_keys_def demo_store_def serializeVars_def length_encodeVariable raw_size_def key_var_def
      length_Encode_ascii length_signature_list hdr_size_def nv_consts align4_def)

theorem Enroll_succeeds_witness:
  "\<exists>st'. EnrollSecureBootKeys nv_store (demo_os, demo_store) demo_keys = (st', Ok ()) \<and>
     vs_lookup nv_store st' ''PK'' EFIGlobalVariableGUID = Some (key_var ''PK'' EFIGlobalVariableGUID [1])"
  using Enroll_succeeds [OF demo_room(1) demo_synced demo_room(2)] by (auto simp: demo_keys_def)

theorem Enroll_PK_only_after_db_and_KEK_witness:
  "\<exists>st'. EnrollSecureBootKeys nv_store (demo_os, demo_store) demo_keys = (st', Ok ()) \<and>
     vs_lookup nv_store st' ''Timeout'' EFIGlobalVariableGUID = None"
proof -
  obtain img where "backed demo_os demo_store img"
    using synced_backed [OF demo_synced(2)] by blast
  then obtain st' where e: "EnrollSecureBootKeys nv_store (demo_os, demo_store) demo_keys = (st', Ok ())"
    using Enroll_room [OF demo_room(1) demo_synced(1) _ demo_room(2)] by blast
  have "vs_lookup nv_store (demo_os, demo_store) ''Timeout'' EFIGlobalVariableGUID = None"
    by (simp add: vs_lookup_def demo_store_def)
  with e Enroll_PK_only_after_db_and_KEK [OF demo_room(1) e] show ?thesis
    by simp
qed


end
