(* ===== verification/Go_Crypto.thy ===== *)
theory Go_Crypto
  imports Go_Text
begin

text \<open>
  What authwrite.go uses of Go's cryptographic standard library: SHA-256 (crypto/sha256), the DER
  encoder of encoding/asn1, and the signature of crypto/rsa. SHA-256 and DER are executable
  definitions; the private-key operation of crypto/rsa is a parameter with its documented contract,
  that a signature it returns is one that the verification accepts. The reader \<open>der_split\<close> is a
  specification: it takes an encoding apart again, and the round-trip lemmas relate the two.
\<close>

subsection \<open>SHA-256\<close>

definition rotr32 :: "nat \<Rightarrow> u32 \<Rightarrow> u32" where
  "rotr32 n x = drop_bit n x OR push_bit (32 - n) x"

text \<open>The constants of FIPS 180-4 are computed from their definition: the first 32 bits of the fractional
  parts of the square and cube roots of the first primes. \<open>root_bits k n b acc\<close> fixes the low \<open>b\<close> bits of the
  integer \<open>k\<close>-th root of \<open>n\<close>, from the highest one down.\<close>

fun root_bits :: "nat \<Rightarrow> nat \<Rightarrow> nat \<Rightarrow> nat \<Rightarrow> nat" where
  "root_bits k n 0 acc = acc"
| "root_bits k n (Suc b) acc = root_bits k n b (if (acc + 2 ^ b) ^ k \<le> n then acc + 2 ^ b else acc)"

lemma root_bits_root:
  "acc ^ k \<le> n \<Longrightarrow> n < (acc + 2 ^ b) ^ k \<Longrightarrow> root_bits k n b acc ^ k \<le> n \<and> n < Suc (root_bits k n b acc) ^ k"
  by (induction b arbitrary: acc) (auto simp: algebra_simps mult_2 not_le)

definition first_primes :: "nat list" where
  "first_primes = filter (\<lambda>p. \<forall>d \<in> set [2..<p]. p mod d \<noteq> 0) [2..<312]"

definition root_word :: "nat \<Rightarrow> nat \<Rightarrow> u32" where
  "root_word k p = of_nat (root_bits k (p * 2 ^ (32 * k)) 40 0)"

definition sha256_K :: "u32 list" where
  "sha256_K = map (root_word 3) first_primes"

type_synonym sha_state = "u32 \<times> u32 \<times> u32 \<times> u32 \<times> u32 \<times> u32 \<times> u32 \<times> u32"

definition sha256_init :: sha_state where
  "sha256_init = (root_word 2 2, root_word 2 3, root_word 2 5, root_word 2 7, root_word 2 11, root_word 2 13,
     root_word 2 17, root_word 2 19)"

text \<open>The message schedule: the sixteen words of a block, extended to sixty-four.\<close>

fun sha256_schedule :: "nat \<Rightarrow> u32 list \<Rightarrow> u32 list" where
  "sha256_schedule 0 ws = ws"
| "sha256_schedule (Suc n) ws =
     (let t = length ws; w15 = ws ! (t - 15); w2 = ws ! (t - 2);
          s0 = rotr32 7 w15 XOR rotr32 18 w15 XOR drop_bit 3 w15;
          s1 = rotr32 17 w2 XOR rotr32 19 w2 XOR drop_bit 10 w2 in
      sha256_schedule n (ws @ [ws ! (t - 16) + s0 + ws ! (t - 7) + s1]))"

fun sha256_round :: "u32 \<times> u32 \<Rightarrow> sha_state \<Rightarrow> sha_state" where
  "sha256_round (k, w) (a, b, c, d, e, f, g, h) =
     (let s1 = rotr32 6 e XOR rotr32 11 e XOR rotr32 25 e;
          ch = (e AND f) XOR (NOT e AND g);
          t1 = h + s1 + ch + k + w;
          s0 = rotr32 2 a XOR rotr32 13 a XOR rotr32 22 a;
          maj = (a AND b) XOR (a AND c) XOR (b AND c) in
      (t1 + (s0 + maj), a, b, c, d + t1, e, f, g))"

fun sha_add :: "sha_state \<Rightarrow> sha_state \<Rightarrow> sha_state" where
  "sha_add (a, b, c, d, e, f, g, h) (a', b', c', d', e', f', g', h') =
     (a + a', b + b', c + c', d + d', e + e', f + f', g + g', h + h')"

fun be32_words :: "bytes \<Rightarrow> u32 list" where
  "be32_words (a # b # c # d # r) = le32 d c b a # be32_words r"
| "be32_words r = []"

definition sha256_block :: "bytes \<Rightarrow> sha_state \<Rightarrow> sha_state" where
  "sha256_block blk st = sha_add st (fold sha256_round (zip sha256_K (sha256_schedule 48 (be32_words blk))) st)"

text \<open>The blocks of a padded message, \<open>n\<close> of them.\<close>

fun sha256_blocks :: "nat \<Rightarrow> bytes \<Rightarrow> sha_state \<Rightarrow> sha_state" where
  "sha256_blocks 0 m st = st"
| "sha256_blocks (Suc n) m st = sha256_blocks n (drop 64 m) (sha256_block (take 64 m) st)"

definition sha256_pad :: "bytes \<Rightarrow> bytes" where
  "sha256_pad m = m @ [0x80] @ replicate ((119 - length m mod 64) mod 64) 0 @ rev (le64_bytes (of_nat (8 * length m)))"

fun sha_bytes :: "sha_state \<Rightarrow> bytes" where
  "sha_bytes (a, b, c, d, e, f, g, h) = concat (map (\<lambda>w. rev (le32_bytes w)) [a, b, c, d, e, f, g, h])"

definition sha256 :: "bytes \<Rightarrow> bytes" where
  "sha256 m = (let p = sha256_pad m in sha_bytes (sha256_blocks (length p div 64) p sha256_init))"

lemma length_sha256 [simp]: "length (sha256 m) = 32"
proof -
  have "length (sha_bytes st) = 32" for st
    by (cases st rule: sha_bytes.cases) simp
  then show ?thesis
    by (simp add: sha256_def Let_def)
qed

lemma length_sha256_pad: "length (sha256_pad m) mod 64 = 0"
proof -
  define r where "r = length m mod 64"
  have "r + (9 + (119 - r) mod 64) = (if r \<le> 55 then 64 else 128)"
    using mod_less_divisor [of 64 "length m"] by (auto simp: r_def le_mod_geq)
  then have "(r + (9 + (119 - r) mod 64)) mod 64 = 0"
    by simp
  then have "(length m + (9 + (119 - r) mod 64)) mod 64 = 0"
    by (metis mod_add_left_eq r_def)
  then show ?thesis
    by (simp add: sha256_pad_def r_def)
qed

subsection \<open>The DER encoder of encoding/asn1\<close>

definition asn1_base128 :: "nat \<Rightarrow> bytes" where
  "asn1_base128 n = (let ds = nat_digits 128 n in map (\<lambda>d. 0x80 OR of_nat d) (butlast ds) @ [of_nat (last ds)])"

text \<open>\<open>appendTagAndLength\<close>.\<close>

definition asn1_tag :: "nat \<Rightarrow> nat \<Rightarrow> bool \<Rightarrow> bytes" where
  "asn1_tag class tag isCompound =
     (let b = push_bit 6 (of_nat class) OR (if isCompound then 0x20 else 0) in
      if tag < 31 then [b OR of_nat tag] else (b OR 0x1f) # asn1_base128 tag)"

definition asn1_length :: "nat \<Rightarrow> bytes" where
  "asn1_length n =
     (if n \<ge> 128 then let ds = nat_digits 256 n in (0x80 OR of_nat (length ds)) # map of_nat ds
      else [of_nat n])"

definition asn1_element :: "nat \<Rightarrow> nat \<Rightarrow> bool \<Rightarrow> bytes \<Rightarrow> bytes" where
  "asn1_element class tag isCompound body = asn1_tag class tag isCompound @ asn1_length (length body) @ body"

abbreviation asn1_SEQUENCE :: "bytes \<Rightarrow> bytes" where
  "asn1_SEQUENCE body \<equiv> asn1_element 0 16 True body"

abbreviation asn1_SET :: "bytes \<Rightarrow> bytes" where
  "asn1_SET body \<equiv> asn1_element 0 17 True body"

text \<open>Integers are two's complement in as few bytes as possible.\<close>

function int_octets :: "int \<Rightarrow> bytes" where
  "int_octets i =
     (if - 128 \<le> i \<and> i < 128 then [word_of_int i] else int_octets (i div 256) @ [word_of_int i])"
  by pat_completeness auto
termination
  by (relation "measure (\<lambda>i. nat \<bar>i\<bar>)") auto

declare int_octets.simps [simp del]

definition asn1_INTEGER :: "int \<Rightarrow> bytes" where
  "asn1_INTEGER i = asn1_element 0 2 False (int_octets i)"

definition asn1_OCTETS :: "bytes \<Rightarrow> bytes" where
  "asn1_OCTETS b = asn1_element 0 4 False b"

definition asn1_OID :: "nat list \<Rightarrow> bytes res" where
  "asn1_OID oid =
     (case oid of
        a # b # r \<Rightarrow>
          if a > 2 \<or> a < 2 \<and> b \<ge> 40 then Err (Leaf ''asn1: structure error: invalid object identifier'')
          else Ok (asn1_element 0 6 False (concat (map asn1_base128 ((a * 40 + b) # r))))
      | _ \<Rightarrow> Err (Leaf ''asn1: structure error: invalid object identifier''))"

text \<open>A \<open>*big.Int\<close>, which may be nil.\<close>

definition asn1_bigInt :: "int option \<Rightarrow> bytes res" where
  "asn1_bigInt n =
     (case n of Some i \<Rightarrow> Ok (asn1_INTEGER i) | None \<Rightarrow> Err (Leaf ''asn1: structure error: empty integer''))"

record RawValue =
  rvClass :: nat
  rvTag :: nat
  rvIsCompound :: bool
  rvBytes :: bytes
  rvFullBytes :: bytes

definition NullRawValue :: RawValue where
  "NullRawValue = \<lparr> rvClass = 0, rvTag = 5, rvIsCompound = False, rvBytes = [], rvFullBytes = [] \<rparr>"

definition zero_RawValue :: RawValue where
  "zero_RawValue = \<lparr> rvClass = 0, rvTag = 0, rvIsCompound = False, rvBytes = [], rvFullBytes = [] \<rparr>"

text \<open>A raw value is emitted as it is, whatever tag its field asks for; an optional one only if
  it is not the zero value.\<close>

definition asn1_raw :: "RawValue \<Rightarrow> bytes" where
  "asn1_raw rv =
     (if length (rvFullBytes rv) \<noteq> 0 then rvFullBytes rv
      else asn1_element (rvClass rv) (rvTag rv) (rvIsCompound rv) (rvBytes rv))"

definition asn1_raw_optional :: "RawValue \<Rightarrow> bytes" where
  "asn1_raw_optional rv = (if rv = zero_RawValue then [] else asn1_raw rv)"

subsection \<open>Reading DER\<close>

definition be_value :: "bytes \<Rightarrow> nat" where
  "be_value b = foldl (\<lambda>a d. 256 * a + unat d) 0 b"

fun der_length :: "bytes \<Rightarrow> (nat \<times> bytes) option" where
  "der_length [] = None"
| "der_length (x # r) =
     (if unat x < 128 then Some (unat x, r)
      else let k = unat x - 128 in if k \<le> length r then Some (be_value (take k r), drop k r) else None)"

fun der_read :: "bytes \<Rightarrow> (byte \<times> bytes \<times> bytes) option" where
  "der_read [] = None"
| "der_read (t # b) =
     (case der_length b of
        None \<Rightarrow> None
      | Some (n, r) \<Rightarrow> if n \<le> length r then Some (t, take n r, drop n r) else None)"

lemma der_length_shorter: "der_length b = Some (n, r) \<Longrightarrow> length r < length b"
  by (cases b) (auto simp: Let_def split: if_splits)

lemma der_read_shorter: "der_read b = Some (t, c, r) \<Longrightarrow> length r < length b"
  by (cases b) (auto split: option.splits prod.splits if_splits dest: der_length_shorter)

text \<open>The elements of an encoding, in order, each with its identifier byte and contents.\<close>

function der_split :: "bytes \<Rightarrow> (byte \<times> bytes) list option" where
  "der_split b =
     (if b = [] then Some []
      else case der_read b of
          None \<Rightarrow> None
        | Some (t, c, r) \<Rightarrow> (case der_split r of None \<Rightarrow> None | Some es \<Rightarrow> Some ((t, c) # es)))"
  by pat_completeness auto
termination
  by (relation "measure length") (auto dest: der_read_shorter)

declare der_split.simps [simp del]

lemma be_value_append: "be_value (b @ [x]) = 256 * be_value b + unat x"
  by (simp add: be_value_def)

lemma be_value_digits: "be_value (map of_nat (nat_digits 256 n)) = n"
proof (induction "256 :: nat" n rule: nat_digits.induct)
  case (1 n)
  have "unat (of_nat m :: byte) = m" if "m < 256" for m
    using that by (simp add: unat_of_nat)
  with 1 show ?case
    by (subst nat_digits.simps) (auto simp: be_value_append, simp add: be_value_def)
qed

lemma der_length_asn1: "n < 2 ^ 64 \<Longrightarrow> der_length (asn1_length n @ r) = Some (n, r)"
proof (cases "n \<ge> 128")
  case True
  let ?ds = "nat_digits 256 n"
  assume "n < 2 ^ 64"
  then have len: "length ?ds \<le> 8"
    by (intro nat_digits_length) simp_all
  have "unat (0x80 OR of_nat k :: byte) = 128 + k" if "k \<in> {0, 1, 2, 3, 4, 5, 6, 7, 8}" for k :: nat
    using that by auto
  moreover have "length ?ds \<in> {0, 1, 2, 3, 4, 5, 6, 7, 8}"
    using len by (simp only: insert_iff empty_iff) linarith
  ultimately have "unat (0x80 OR of_nat (length ?ds) :: byte) = 128 + length ?ds"
    by blast
  then show ?thesis
    using True by (simp add: asn1_length_def Let_def be_value_digits)
next
  case False
  then show ?thesis
    by (simp add: asn1_length_def unat_of_nat)
qed

text \<open>The identifier bytes of the elements in use.\<close>

lemma asn1_tags [simp]:
  "asn1_tag 0 2 False = [0x02]" "asn1_tag 0 4 False = [0x04]" "asn1_tag 0 5 False = [0x05]" "asn1_tag 0 6 False = [0x06]"
  "asn1_tag 0 16 True = [0x30]" "asn1_tag 0 17 True = [0x31]" "asn1_tag 2 0 True = [0xA0]"
  by (simp_all add: asn1_tag_def)

lemma der_read_element:
  assumes "asn1_tag cl t k = [i]" and "length body < 2 ^ 64"
  shows "der_read (asn1_element cl t k body @ r) = Some (i, body, r)"
  by (simp add: asn1_element_def assms(1) der_length_asn1 [OF assms(2)])

lemma der_split_element:
  assumes "asn1_tag cl t k = [i]" and "length body < 2 ^ 64" and "der_split r = Some es"
  shows "der_split (asn1_element cl t k body @ r) = Some ((i, body) # es)"
proof -
  have "asn1_element cl t k body @ r \<noteq> []"
    by (simp add: asn1_element_def assms(1))
  then show ?thesis
    by (subst der_split.simps) (simp add: der_read_element [OF assms(1,2)] assms(3))
qed

lemma der_split_Nil: "der_split [] = Some []"
  by (subst der_split.simps) simp

lemma der_split_single:
  assumes "asn1_tag cl t k = [i]" and "length body < 2 ^ 64"
  shows "der_split (asn1_element cl t k body) = Some [(i, body)]"
  using der_split_element [OF assms der_split_Nil] by simp

lemma length_asn1_element: "length body < length (asn1_element cl t k body)"
  by (simp add: asn1_element_def asn1_length_def asn1_tag_def Let_def)

subsection \<open>RSA signatures\<close>

text \<open>\<open>rsa.SignPKCS1v15\<close> with SHA-256 on a digest, and \<open>rsa.VerifyPKCS1v15\<close> with the public half
  of the key. The contract is the documented one: what signing returns, verification accepts.\<close>

record 'k rsa_api =
  SignPKCS1v15 :: "'k \<Rightarrow> bytes \<Rightarrow> go_error + bytes"
  VerifyPKCS1v15 :: "'k \<Rightarrow> bytes \<Rightarrow> bytes \<Rightarrow> bool"

definition rsa_spec :: "'k rsa_api \<Rightarrow> bool" where
  "rsa_spec rsa \<longleftrightarrow> (\<forall>k d sig. SignPKCS1v15 rsa k d = Inr sig \<longrightarrow> VerifyPKCS1v15 rsa k d sig)"


end
