(* ===== verification/Go_Time.thy ===== *)
theory Go_Time
  imports Uefi_Prelude
begin

text \<open>
  What authwrite.go uses of the package time: an instant with its location's offset, the
  conversion to UTC, and the calendar fields of the proleptic Gregorian calendar. The inverse,
  from calendar fields to seconds, is stated on its own and the two are related by lemmas.
\<close>

record Time =
  unixSec :: int
  nsec :: nat
  zoneOffset :: int

definition time_UTC :: "Time \<Rightarrow> Time" where
  "time_UTC t = t\<lparr> zoneOffset := 0 \<rparr>"

definition is_leap :: "int \<Rightarrow> bool" where
  "is_leap y \<longleftrightarrow> y mod 4 = 0 \<and> (y mod 100 \<noteq> 0 \<or> y mod 400 = 0)"

definition month_lengths :: "bool \<Rightarrow> int list" where
  "month_lengths leap = [31, if leap then 29 else 28, 31, 30, 31, 30, 31, 31, 30, 31, 30, 31]"

text \<open>Days from 1 January of year 1 to 1 January 1970.\<close>

definition epoch_day :: int where "epoch_day = 719162"

text \<open>Year and day of the year for a day counted from 1 January of year 1: whole cycles of 400, 100
  and 4 years are taken off, and the last day of a 400- or 4-year cycle belongs to its last year.\<close>

definition year_yday :: "int \<Rightarrow> int \<times> int" where
  "year_yday day =
     (let n400 = day div 146097; r = day mod 146097;
          n100 = min 3 (r div 36524); r = r - 36524 * n100;
          n4 = r div 1461; r = r - 1461 * n4;
          n = min 3 (r div 365) in
      (1 + 400 * n400 + 100 * n100 + 4 * n4 + n, r - 365 * n))"

fun month_day :: "int list \<Rightarrow> int \<Rightarrow> int \<Rightarrow> int \<times> int" where
  "month_day [] m d = (m, d + 1)"
| "month_day (l # ls) m d = (if d < l then (m, d + 1) else month_day ls (m + 1) (d - l))"

definition local_sec :: "Time \<Rightarrow> int" where
  "local_sec t = unixSec t + zoneOffset t"

definition time_Date :: "Time \<Rightarrow> int \<times> int \<times> int" where
  "time_Date t =
     (case year_yday (local_sec t div 86400 + epoch_day) of (y, yd) \<Rightarrow>
      case month_day (month_lengths (is_leap y)) 1 yd of (m, d) \<Rightarrow> (y, m, d))"

definition time_Year :: "Time \<Rightarrow> int" where "time_Year t = fst (time_Date t)"
definition time_Month :: "Time \<Rightarrow> int" where "time_Month t = fst (snd (time_Date t))"
definition time_Day :: "Time \<Rightarrow> int" where "time_Day t = snd (snd (time_Date t))"
definition time_Hour :: "Time \<Rightarrow> int" where "time_Hour t = local_sec t mod 86400 div 3600"
definition time_Minute :: "Time \<Rightarrow> int" where "time_Minute t = local_sec t mod 3600 div 60"
definition time_Second :: "Time \<Rightarrow> int" where "time_Second t = local_sec t mod 60"

subsection \<open>From the calendar to days\<close>

definition days_before_year :: "int \<Rightarrow> int" where
  "days_before_year y = 365 * (y - 1) + (y - 1) div 4 - (y - 1) div 100 + (y - 1) div 400"

definition civil_day :: "int \<Rightarrow> int \<Rightarrow> int \<Rightarrow> int" where
  "civil_day y m d = days_before_year y + sum_list (take (nat (m - 1)) (month_lengths (is_leap y))) + d - 1"

definition valid_date :: "int \<Rightarrow> int \<Rightarrow> int \<Rightarrow> bool" where
  "valid_date y m d \<longleftrightarrow> 1 \<le> m \<and> m \<le> 12 \<and> 1 \<le> d \<and> d \<le> month_lengths (is_leap y) ! nat (m - 1)"

text \<open>The fourth year of a 4-year cycle is a leap year, but for the last cycle of a century that is not
  the last of its 400 years.\<close>

lemma leap_last:
  assumes "0 \<le> c" "c \<le> 24" "c = 24 \<longrightarrow> b = 3"
  shows "is_leap (1 + 400 * a + 100 * b + 4 * c + 3)"
proof (cases "c = 24")
  case True
  with assms have "1 + 400 * a + 100 * b + 4 * c + 3 = 400 * (a + 1)"
    by simp
  then show ?thesis
    by (simp add: is_leap_def)
next
  case False
  let ?y = "1 + 400 * a + 100 * b + 4 * c + 3"
  have "?y = 4 * (c + 1) + 100 * (4 * a + b)"
    by simp
  then have "?y mod 100 = (4 * (c + 1)) mod 100"
    by (simp only: mod_mult_self2)
  also have "\<dots> = 4 * (c + 1)"
    using assms False by (intro mod_pos_pos_trivial) simp_all
  finally have "?y mod 100 \<noteq> 0"
    using assms by simp
  moreover have "?y mod 4 = 0"
    by presburger
  ultimately show ?thesis
    by (simp add: is_leap_def)
qed

lemma year_yday_correct:
  assumes "year_yday day = (y, yd)"
  shows "days_before_year y + yd = day" "0 \<le> yd" "yd < (if is_leap y then 366 else 365)"
proof -
  define a where "a = day div 146097"
  define r where "r = day mod 146097"
  define b where "b = min 3 (r div 36524)"
  define r2 where "r2 = r - 36524 * b"
  define c where "c = r2 div 1461"
  define r3 where "r3 = r2 - 1461 * c"
  define e where "e = min 3 (r3 div 365)"
  have y: "y = 1 + 400 * a + 100 * b + 4 * c + e" and yd: "yd = r3 - 365 * e"
    using assms unfolding year_yday_def Let_def a_def [symmetric] r_def [symmetric] b_def [symmetric] r2_def [symmetric]
      c_def [symmetric] r3_def [symmetric] e_def [symmetric] by simp_all
  have day: "day = 146097 * a + r" and r: "0 \<le> r" "r \<le> 146096"
    using mult_div_mod_eq [of 146097 day] pos_mod_sign [of 146097 day] pos_mod_bound [of 146097 day]
    unfolding a_def [symmetric] r_def [symmetric] by linarith+
  have eqs: "x = k * (x div k) + x mod k \<and> 0 \<le> x mod k \<and> x mod k < k" if "0 < k" for x k :: int
    using that by simp
  have b: "0 \<le> b" "b \<le> 3" and r2: "0 \<le> r2" "r2 \<le> 36524" "r2 = 36524 \<Longrightarrow> b = 3"
    using r eqs [of 36524 r] unfolding b_def r2_def min_def by (cases "3 \<le> r div 36524"; simp; linarith)+
  have c: "0 \<le> c" "c \<le> 24" and r3: "0 \<le> r3" "r3 \<le> 1460" "r3 = 1460 \<Longrightarrow> c = 24 \<Longrightarrow> b = 3"
    using r2 eqs [of 1461 r2] unfolding c_def r3_def by linarith+
  have e: "0 \<le> e" "e \<le> 3" and d: "0 \<le> yd" "yd \<le> 365" "yd = 365 \<Longrightarrow> e = 3" "yd = 365 \<Longrightarrow> r3 = 1460"
    using r3 eqs [of 365 r3] unfolding e_def yd min_def by (cases "3 \<le> r3 div 365"; simp; linarith)+
  have "(y - 1) div 4 = 100 * a + 25 * b + c"
    by (rule int_div_pos_eq [where r = e]) (use e in \<open>simp_all add: y\<close>)
  moreover have "(y - 1) div 100 = 4 * a + b"
    by (rule int_div_pos_eq [where r = "4 * c + e"]) (use c e in \<open>simp_all add: y\<close>)
  moreover have "(y - 1) div 400 = a"
    by (rule int_div_pos_eq [where r = "100 * b + 4 * c + e"]) (use b c e in \<open>simp_all add: y\<close>)
  ultimately show "days_before_year y + yd = day"
    by (simp add: days_before_year_def day y yd r3_def r2_def)
  show "0 \<le> yd" by (rule d)
  show "yd < (if is_leap y then 366 else 365)"
  proof (cases "yd = 365")
    case True
    with d(3,4) r3(3) have l: "e = 3" "c = 24 \<longrightarrow> b = 3"
      by auto
    with c have "is_leap (1 + 400 * a + 100 * b + 4 * c + 3)"
      by (intro leap_last)
    with l(1) have "is_leap y"
      by (simp add: y)
    with True show ?thesis by simp
  qed (use d(2) in simp)
qed

lemma month_day_correct:
  assumes "month_day ls m d = (m', d')" and "0 \<le> d" and "d < sum_list ls"
  shows "m \<le> m' \<and> m' < m + int (length ls) \<and> sum_list (take (nat (m' - m)) ls) + d' - 1 = d \<and> 1 \<le> d' \<and>
    d' \<le> ls ! nat (m' - m)"
  using assms
proof (induction ls arbitrary: m d)
  case (Cons l ls)
  show ?case
  proof (cases "d < l")
    case False
    with Cons have ih: "m + 1 \<le> m' \<and> m' < m + 1 + int (length ls) \<and>
        sum_list (take (nat (m' - (m + 1))) ls) + d' - 1 = d - l \<and> 1 \<le> d' \<and> d' \<le> ls ! nat (m' - (m + 1))"
      by simp
    moreover from ih have "nat (m' - m) = Suc (nat (m' - (m + 1)))"
      by linarith
    ultimately show ?thesis
      by simp
  qed (use Cons.prems in auto)
qed simp

lemma month_lengths_sum: "sum_list (month_lengths leap) = (if leap then 366 else 365)"
  by (simp add: month_lengths_def)

lemma time_Date_correct:
  assumes "time_Date t = (y, m, d)"
  shows "valid_date y m d" "civil_day y m d = local_sec t div 86400 + epoch_day"
proof -
  obtain yd where y: "year_yday (local_sec t div 86400 + epoch_day) = (y, yd)"
    and m: "month_day (month_lengths (is_leap y)) 1 yd = (m, d)"
    using assms by (auto simp: time_Date_def split: prod.splits)
  note yc = year_yday_correct [OF y]
  have "yd < sum_list (month_lengths (is_leap y))"
    using yc(3) by (simp add: month_lengths_sum)
  note mc = month_day_correct [OF m yc(2) this]
  have "length (month_lengths (is_leap y)) = 12"
    by (simp add: month_lengths_def)
  with mc show "valid_date y m d"
    by (simp add: valid_date_def)
  from mc yc(1) show "civil_day y m d = local_sec t div 86400 + epoch_day"
    by (simp add: civil_day_def)
qed

lemma month_length_le: "0 \<le> i \<Longrightarrow> i < 12 \<Longrightarrow> month_lengths leap ! nat i \<le> 31"
proof -
  have "\<forall>k \<in> {..<12}. month_lengths leap ! k \<le> 31"
    by (simp add: month_lengths_def lessThan_nat_numeral lessThan_Suc)
  then show "0 \<le> i \<Longrightarrow> i < 12 \<Longrightarrow> month_lengths leap ! nat i \<le> 31"
    by simp
qed

lemma valid_date_bounds: "valid_date y m d \<Longrightarrow> 1 \<le> m \<and> m \<le> 12 \<and> 1 \<le> d \<and> d \<le> 31"
  using month_length_le [of "m - 1" "is_leap y"] by (auto simp: valid_date_def)

lemma clock_fields:
  "time_Hour t * 3600 + time_Minute t * 60 + time_Second t = local_sec t mod 86400"
  "0 \<le> time_Hour t" "time_Hour t < 24" "0 \<le> time_Minute t" "time_Minute t < 60" "0 \<le> time_Second t" "time_Second t < 60"
proof -
  define s where "s = local_sec t mod 86400"
  have f: "time_Hour t = s div 3600" "time_Minute t = s mod 3600 div 60" "time_Second t = s mod 3600 mod 60"
    by (simp_all add: s_def time_Hour_def time_Minute_def time_Second_def mod_mod_cancel)
  have b: "0 \<le> s" "s < 86400" "0 \<le> s mod 3600" "s mod 3600 < 3600" "0 \<le> s mod 3600 mod 60" "s mod 3600 mod 60 < 60"
    "0 \<le> s div 3600" "0 \<le> s mod 3600 div 60"
    by (simp_all add: s_def pos_imp_zdiv_nonneg_iff)
  have e: "s div 3600 * 3600 + s mod 3600 = s" "s mod 3600 div 60 * 60 + s mod 3600 mod 60 = s mod 3600"
    by (rule div_mult_mod_eq)+
  show "time_Hour t * 3600 + time_Minute t * 60 + time_Second t = local_sec t mod 86400"
    unfolding f s_def [symmetric] using e by linarith
  show "0 \<le> time_Hour t" "time_Hour t < 24" "0 \<le> time_Minute t" "time_Minute t < 60" "0 \<le> time_Second t" "time_Second t < 60"
    unfolding f using b e by linarith+
qed

end
