(* ===== verification/Auth_Write.thy ===== *)
theory Auth_Write
  imports Secure_Boot Go_Crypto Go_Time "HOL-Library.List_Lexorder"
begin

text \<open>
  Time-based authenticated writes (authwrite.go): EFI_TIME, the bytes that are signed, the
  EFI_VARIABLE_AUTHENTICATION_2 descriptor and its parser, the PKCS#7 SignedData with the structures
  that encoding/asn1 marshals, and the write itself over any \<open>VariableStore\<close>. The key of a
  signer is a value of type \<open>'k\<close>, used only through \<open>rsa.SignPKCS1v15\<close>.
\<close>

definition winCertRevision :: u16 where "winCertRevision = 0x0200"
definition winCertTypeEFIGUID :: u16 where "winCertTypeEFIGUID = 0x0EF1"
definition winCertHeaderSize :: nat where "winCertHeaderSize = 8"
definition efiTimeSize :: nat where "efiTimeSize = 16"

definition EFICertTypePKCS7GUID :: GUID where
  "EFICertTypePKCS7GUID = B16 0x9d 0xd2 0xaf 0x4a 0xdf 0x68 0xee 0x49
     0x8a 0xa9 0x34 0x7d 0x37 0x56 0x65 0xa7"

lemmas auth_consts = winCertRevision_def winCertTypeEFIGUID_def winCertHeaderSize_def efiTimeSize_def

subsection \<open>EFI_TIME\<close>

text \<open>\<open>TimeZone\<close> is an int16; the conversions to and from uint16 keep its bits.\<close>

record EFITime =
  Year :: u16
  Month :: byte
  Day :: byte
  Hour :: byte
  Minute :: byte
  Second :: byte
  Nanosecond :: u32
  TimeZone :: u16
  Daylight :: byte

definition EFITimeFromGoTime :: "Time \<Rightarrow> EFITime" where
  "EFITimeFromGoTime t =
     (let t = time_UTC t in
      \<lparr> Year = word_of_int (time_Year t), Month = word_of_int (time_Month t), Day = word_of_int (time_Day t),
        Hour = word_of_int (time_Hour t), Minute = word_of_int (time_Minute t), Second = word_of_int (time_Second t),
        Nanosecond = 0, TimeZone = 0, Daylight = 0 \<rparr>)"

definition Marshal_EFITime :: "EFITime \<Rightarrow> bytes" where
  "Marshal_EFITime e =
     le16_bytes (Year e) @ [Month e, Day e, Hour e, Minute e, Second e, 0] @ le32_bytes (Nanosecond e) @
     le16_bytes (TimeZone e) @ [Daylight e, 0]"

definition parseEFITime :: "bytes \<Rightarrow> EFITime res" where
  "parseEFITime b =
     (if length b < efiTimeSize then Err (Leaf ''uefi: EFI_TIME truncated'')
      else
        bindR (bindR (slice_from b 0) Uint16) (\<lambda>year.
        bindR (index b 2) (\<lambda>month.
        bindR (index b 3) (\<lambda>day.
        bindR (index b 4) (\<lambda>hour.
        bindR (index b 5) (\<lambda>minute.
        bindR (index b 6) (\<lambda>second.
        bindR (bindR (slice_from b 8) Uint32) (\<lambda>nano.
        bindR (bindR (slice_from b 12) Uint16) (\<lambda>tz.
        bindR (index b 14) (\<lambda>dl.
        Ok \<lparr> Year = year, Month = month, Day = day, Hour = hour, Minute = minute, Second = second,
             Nanosecond = nano, TimeZone = tz, Daylight = dl \<rparr>))))))))))"

subsection \<open>The PKCS#7 structures\<close>

definition oidData :: "nat list" where "oidData = [1, 2, 840, 113549, 1, 7, 1]"
definition oidSignedData :: "nat list" where "oidSignedData = [1, 2, 840, 113549, 1, 7, 2]"
definition oidSHA256 :: "nat list" where "oidSHA256 = [2, 16, 840, 1, 101, 3, 4, 2, 1]"
definition oidRSAEncrypt :: "nat list" where "oidRSAEncrypt = [1, 2, 840, 113549, 1, 1, 1]"
definition pkcs7SignerVer :: int where "pkcs7SignerVer = 1"
definition pkcs7SignedVer :: int where "pkcs7SignedVer = 1"

lemmas pkcs7_oids = oidData_def oidSignedData_def oidSHA256_def oidRSAEncrypt_def

record algorithmIdentifier =
  Algorithm :: "nat list"
  Parameters :: RawValue

record issuerAndSerial =
  IssuerRaw :: RawValue
  SerialNumber :: "int option"

record contentInfoEmpty =
  ciContentType :: "nat list"

record signerInfo =
  siVersion :: int
  IssuerAndSerialNumber :: issuerAndSerial
  DigestAlgorithm :: algorithmIdentifier
  DigestEncryptionAlgorithm :: algorithmIdentifier
  EncryptedDigest :: bytes

record signedData =
  sdVersion :: int
  DigestAlgorithms :: "algorithmIdentifier list"
  ContentInfo :: contentInfoEmpty
  Certificates :: RawValue
  SignerInfos :: "signerInfo list"

record outerContentInfo =
  oContentType :: "nat list"
  oContent :: RawValue

text \<open>\<open>asn1.Marshal\<close> on these structures: a struct is the SEQUENCE of its fields, a slice marked
  \<open>set\<close> the SET of its elements, which DER sorts by their encodings.\<close>

definition marshal_algorithmIdentifier :: "algorithmIdentifier \<Rightarrow> bytes res" where
  "marshal_algorithmIdentifier a =
     bindR (asn1_OID (Algorithm a)) (\<lambda>oid. Ok (asn1_SEQUENCE (oid @ asn1_raw_optional (Parameters a))))"

definition marshal_issuerAndSerial :: "issuerAndSerial \<Rightarrow> bytes res" where
  "marshal_issuerAndSerial i =
     bindR (asn1_bigInt (SerialNumber i)) (\<lambda>n. Ok (asn1_SEQUENCE (asn1_raw (IssuerRaw i) @ n)))"

definition marshal_contentInfoEmpty :: "contentInfoEmpty \<Rightarrow> bytes res" where
  "marshal_contentInfoEmpty c = bindR (asn1_OID (ciContentType c)) (\<lambda>oid. Ok (asn1_SEQUENCE oid))"

definition marshal_signerInfo :: "signerInfo \<Rightarrow> bytes res" where
  "marshal_signerInfo si =
     bindR (marshal_issuerAndSerial (IssuerAndSerialNumber si)) (\<lambda>ias.
     bindR (marshal_algorithmIdentifier (DigestAlgorithm si)) (\<lambda>da.
     bindR (marshal_algorithmIdentifier (DigestEncryptionAlgorithm si)) (\<lambda>dea.
     Ok (asn1_SEQUENCE (asn1_INTEGER (siVersion si) @ ias @ da @ dea @ asn1_OCTETS (EncryptedDigest si))))))"

fun marshal_all :: "('a \<Rightarrow> bytes res) \<Rightarrow> 'a list \<Rightarrow> bytes list res" where
  "marshal_all f [] = Ok []"
| "marshal_all f (x # xs) = bindR (f x) (\<lambda>b. bindR (marshal_all f xs) (\<lambda>bs. Ok (b # bs)))"

definition asn1_setOf :: "bytes list \<Rightarrow> bytes" where
  "asn1_setOf es = asn1_SET (concat (sort es))"

definition marshal_signedData :: "signedData \<Rightarrow> bytes res" where
  "marshal_signedData sd =
     bindR (marshal_all marshal_algorithmIdentifier (DigestAlgorithms sd)) (\<lambda>das.
     bindR (marshal_contentInfoEmpty (ContentInfo sd)) (\<lambda>ci.
     bindR (marshal_all marshal_signerInfo (SignerInfos sd)) (\<lambda>sis.
     Ok (asn1_SEQUENCE (asn1_INTEGER (sdVersion sd) @ asn1_setOf das @ ci @
          asn1_raw_optional (Certificates sd) @ asn1_setOf sis)))))"

definition marshal_outerContentInfo :: "outerContentInfo \<Rightarrow> bytes res" where
  "marshal_outerContentInfo oc =
     bindR (asn1_OID (oContentType oc)) (\<lambda>oid. Ok (asn1_SEQUENCE (oid @ asn1_raw (oContent oc))))"

subsection \<open>Signing\<close>

record Certificate =
  Raw :: bytes
  RawIssuer :: bytes
  certSerialNumber :: "int option"

text \<open>Both pointers of a signer may be nil; using a nil pointer panics.\<close>

record 'k AuthSigner =
  Key :: "'k option"
  Cert :: "Certificate option"

definition signPKCS7Detached :: "'k rsa_api \<Rightarrow> bytes \<Rightarrow> 'k AuthSigner \<Rightarrow> bytes res" where
  "signPKCS7Detached rsa content signer =
     (let digest = sha256 content in
      case Key signer of
        None \<Rightarrow> Panic
      | Some key \<Rightarrow>
          (case SignPKCS1v15 rsa key digest of
             Inl e \<Rightarrow> Err (Wrap ''rsa sign: %w'' e)
           | Inr sig \<Rightarrow>
               (case Cert signer of
                  None \<Rightarrow> Panic
                | Some cert \<Rightarrow>
                    let si = \<lparr> siVersion = pkcs7SignerVer,
                               IssuerAndSerialNumber =
                                 \<lparr> IssuerRaw = zero_RawValue\<lparr> rvFullBytes := RawIssuer cert \<rparr>,
                                   SerialNumber = certSerialNumber cert \<rparr>,
                               DigestAlgorithm = \<lparr> Algorithm = oidSHA256, Parameters = NullRawValue \<rparr>,
                               DigestEncryptionAlgorithm = \<lparr> Algorithm = oidRSAEncrypt, Parameters = NullRawValue \<rparr>,
                               EncryptedDigest = sig \<rparr>;
                        sd = \<lparr> sdVersion = pkcs7SignedVer,
                               DigestAlgorithms = [\<lparr> Algorithm = oidSHA256, Parameters = NullRawValue \<rparr>],
                               ContentInfo = \<lparr> ciContentType = oidData \<rparr>,
                               Certificates = \<lparr> rvClass = 2, rvTag = 0, rvIsCompound = True, rvBytes = Raw cert, rvFullBytes = [] \<rparr>,
                               SignerInfos = [si] \<rparr> in
                    bindR (wrap_err ''marshal SignedData: %w'' (marshal_signedData sd)) (\<lambda>sdDER.
                    wrap_err ''marshal ContentInfo: %w'' (marshal_outerContentInfo
                      \<lparr> oContentType = oidSignedData,
                        oContent = \<lparr> rvClass = 2, rvTag = 0, rvIsCompound = True, rvBytes = sdDER, rvFullBytes = [] \<rparr> \<rparr>)))))"

definition digestTBS :: "string \<Rightarrow> GUID \<Rightarrow> Attributes \<Rightarrow> EFITime \<Rightarrow> bytes \<Rightarrow> bytes" where
  "digestTBS name guid attrs ts d =
     (let nameU16 = EncodeUTF16LE name;
          nameU16 = (if length nameU16 \<ge> 2 then take (length nameU16 - 2) nameU16 else nameU16) in
      nameU16 @ bytes_of16 guid @ le32_bytes attrs @ Marshal_EFITime ts @ d)"

definition BuildAuthentication2 ::
  "'k rsa_api \<Rightarrow> string \<Rightarrow> GUID \<Rightarrow> Attributes \<Rightarrow> bytes \<Rightarrow> EFITime \<Rightarrow> 'k AuthSigner \<Rightarrow> bytes res" where
  "BuildAuthentication2 rsa name guid attrs d ts signer =
     (if Key signer = None \<or> Cert signer = None
      then Err (Leaf ''uefi: BuildAuthentication2: signer key and cert are required'')
      else if attrs AND AttrTimeBasedAuthenticatedWriteAccess = 0
      then Err (Leaf ''uefi: BuildAuthentication2: attrs must set AttrTimeBasedAuthenticatedWriteAccess'')
      else
        let tbs = digestTBS name guid attrs ts d in
        bindR (wrap_err ''uefi: BuildAuthentication2: %w'' (signPKCS7Detached rsa tbs signer)) (\<lambda>p7.
        let certLen = winCertHeaderSize + 16 + length p7;
            hdr = le32_bytes (of_nat certLen) @ le16_bytes winCertRevision @ le16_bytes winCertTypeEFIGUID @
                  bytes_of16 EFICertTypePKCS7GUID in
        Ok (Marshal_EFITime ts @ hdr @ p7)))"

record Authentication2 =
  TimeStamp :: EFITime
  CertType :: GUID
  PKCS7 :: bytes

definition ParseAuthentication2 :: "bytes \<Rightarrow> Authentication2 res" where
  "ParseAuthentication2 b =
     (if length b < efiTimeSize + winCertHeaderSize + 16
      then Err (Leaf ''uefi: ParseAuthentication2: buffer too small'')
      else
        bindR (bindR (slice b 0 efiTimeSize) parseEFITime) (\<lambda>ts.
        bindR (slice_from b efiTimeSize) (\<lambda>cert.
        bindR (bindR (slice_from cert 0) Uint32) (\<lambda>dwLength.
        bindR (bindR (slice_from cert 4) Uint16) (\<lambda>wRevision.
        bindR (bindR (slice_from cert 6) Uint16) (\<lambda>wCertType.
        if wRevision \<noteq> winCertRevision then Err (Leaf ''uefi: ParseAuthentication2: bad wRevision %#x'')
        else if wCertType \<noteq> winCertTypeEFIGUID then Err (Leaf ''uefi: ParseAuthentication2: bad wCertificateType %#x'')
        else if unat dwLength < winCertHeaderSize + 16 \<or> unat dwLength > length cert
        then Err (Leaf ''uefi: ParseAuthentication2: bad dwLength %d'')
        else
          bindR (slice cert 8 (8 + 16)) (\<lambda>ct.
          bindR (slice cert (8 + 16) (unat dwLength)) (\<lambda>p7.
          Ok \<lparr> TimeStamp = ts, CertType = copy16 ct, PKCS7 = p7 \<rparr>))))))))"

definition WriteAuthenticatedVariable ::
  "'k rsa_api \<Rightarrow> 's VariableStore \<Rightarrow> 's \<Rightarrow> string \<Rightarrow> GUID \<Rightarrow> Attributes \<Rightarrow> bytes \<Rightarrow> EFITime \<Rightarrow> 'k AuthSigner \<Rightarrow>
     's \<times> unit res" where
  "WriteAuthenticatedVariable rsa vs st name guid attrs d ts signer =
     (let attrs = (if attrs = 0 then secureBootAttrs OR AttrTimeBasedAuthenticatedWriteAccess else attrs);
          attrs = attrs OR AttrTimeBasedAuthenticatedWriteAccess in
      case BuildAuthentication2 rsa name guid attrs d ts signer of
        Panic \<Rightarrow> (st, Panic)
      | Err e \<Rightarrow> (st, Err e)
      | Ok desc \<Rightarrow>
          (case vsSet vs st \<lparr> vName = name, vGUID = guid, vAttributes = attrs, vData = desc @ d \<rparr> of
             (st', r) \<Rightarrow> (st', wrap_err ''uefi: WriteAuthenticatedVariable %q: %w'' r)))"

subsection \<open>EFI_TIME round trips\<close>

lemma length_Marshal_EFITime [simp]: "length (Marshal_EFITime e) = 16"
  by (simp add: Marshal_EFITime_def)

lemma parse_Marshal_EFITime: "parseEFITime (Marshal_EFITime e @ r) = Ok e"
  by (simp add: parseEFITime_def Marshal_EFITime_def efiTimeSize_def slice_from_def slice_def index_def
      Uint16_def Uint32_def le16_bytes_def le32_bytes_def codec_simps)

lemma list_16:
  assumes "length b = 16"
  obtains b0 b1 b2 b3 b4 b5 b6 b7 b8 b9 b10 b11 b12 b13 b14 b15
  where "b = [b0, b1, b2, b3, b4, b5, b6, b7, b8, b9, b10, b11, b12, b13, b14, b15]"
  using assms by (auto simp: eval_nat_numeral length_Suc_conv)

lemma Marshal_parse_EFITime:
  assumes "length b = 16"
  shows "\<exists>e. parseEFITime b = Ok e \<and> Marshal_EFITime e = b[7 := 0, 15 := 0]"
  using assms
  by (elim list_16) (simp add: parseEFITime_def Marshal_EFITime_def efiTimeSize_def slice_from_def slice_def index_def
      Uint16_def Uint32_def codec_simps)

lemma Marshal_EFITime_inject [simp]: "Marshal_EFITime e = Marshal_EFITime e' \<longleftrightarrow> e = e'"
  using parse_Marshal_EFITime [of _ "[]"] by (metis append_Nil2 res.inject(1))


subsection \<open>What a verifier reads in the PKCS#7 blob\<close>

text \<open>The elements of an encoding whose identifier bytes are the given ones, and the path of a
  verifier through ContentInfo, SignedData and its one SignerInfo: the certificates, the issuer and serial
  number, and the signature.\<close>

definition der_fields :: "byte list \<Rightarrow> bytes \<Rightarrow> bytes list option" where
  "der_fields ids b =
     (case der_split b of
        Some es \<Rightarrow> if map fst es = ids then Some (map snd es) else None
      | None \<Rightarrow> None)"

definition pkcs7_read :: "bytes \<Rightarrow> (bytes \<times> bytes \<times> bytes) option" where
  "pkcs7_read b =
     Option.bind (der_fields [0x30] b) (\<lambda>ci.
     Option.bind (der_fields [0x06, 0xA0] (ci ! 0)) (\<lambda>c.
     Option.bind (der_fields [0x30] (c ! 1)) (\<lambda>s.
     Option.bind (der_fields [0x02, 0x31, 0x30, 0xA0, 0x31] (s ! 0)) (\<lambda>sd.
     Option.bind (der_fields [0x30] (sd ! 4)) (\<lambda>sis.
     Option.bind (der_fields [0x02, 0x30, 0x30, 0x30, 0x04] (sis ! 0)) (\<lambda>si.
     Some (sd ! 3, si ! 1, si ! 4)))))))"

lemma asn1_OID_consts:
  "\<exists>o1. asn1_OID oidData = Ok (asn1_element 0 6 False o1)" "\<exists>o1. asn1_OID oidSignedData = Ok (asn1_element 0 6 False o1)"
  "\<exists>o1. asn1_OID oidSHA256 = Ok (asn1_element 0 6 False o1)" "\<exists>o1. asn1_OID oidRSAEncrypt = Ok (asn1_element 0 6 False o1)"
  by (simp add: asn1_OID_def pkcs7_oids, blast)+

lemma raw_values:
  "asn1_raw \<lparr> rvClass = 2, rvTag = 0, rvIsCompound = True, rvBytes = b, rvFullBytes = [] \<rparr> = asn1_element 2 0 True b"
  "asn1_raw_optional \<lparr> rvClass = 2, rvTag = 0, rvIsCompound = True, rvBytes = b, rvFullBytes = [] \<rparr> = asn1_element 2 0 True b"
  "asn1_raw_optional NullRawValue = asn1_element 0 5 False []"
  by (simp_all add: asn1_raw_optional_def asn1_raw_def zero_RawValue_def NullRawValue_def)

text \<open>The shape of a SignedData, over the parts that depend on signer and content.\<close>

definition signer_body :: "bytes \<Rightarrow> bytes \<Rightarrow> bytes \<Rightarrow> bytes \<Rightarrow> bytes" where
  "signer_body ias da dea sig =
     asn1_INTEGER 1 @ asn1_SEQUENCE ias @ asn1_SEQUENCE da @ asn1_SEQUENCE dea @ asn1_OCTETS sig"

definition signed_body :: "bytes \<Rightarrow> bytes \<Rightarrow> bytes \<Rightarrow> bytes \<Rightarrow> bytes" where
  "signed_body da ci certs si =
     asn1_INTEGER 1 @ asn1_SET da @ asn1_SEQUENCE ci @ asn1_element 2 0 True certs @ asn1_SET (asn1_SEQUENCE si)"

definition content_body :: "bytes \<Rightarrow> bytes \<Rightarrow> bytes" where
  "content_body oid sd = asn1_element 0 6 False oid @ asn1_element 2 0 True (asn1_SEQUENCE sd)"

lemma signPKCS7_Ok:
  assumes "signPKCS7Detached rsa content signer = Ok p7"
  obtains key cert serial sig ias da dea ci oid where
    "Key signer = Some key" "Cert signer = Some cert" "certSerialNumber cert = Some serial"
    "SignPKCS1v15 rsa key (sha256 content) = Inr sig"
    "ias = asn1_raw (zero_RawValue\<lparr> rvFullBytes := RawIssuer cert \<rparr>) @ asn1_INTEGER serial"
    "p7 = asn1_SEQUENCE (content_body oid (signed_body (asn1_SEQUENCE da) ci (Raw cert) (signer_body ias da dea sig)))"
proof -
  obtain o1 o2 o3 o4 where oids: "asn1_OID oidData = Ok (asn1_element 0 6 False o1)"
    "asn1_OID oidSignedData = Ok (asn1_element 0 6 False o2)"
    "asn1_OID oidSHA256 = Ok (asn1_element 0 6 False o3)" "asn1_OID oidRSAEncrypt = Ok (asn1_element 0 6 False o4)"
    using asn1_OID_consts by blast
  note marshal = oids marshal_signedData_def marshal_algorithmIdentifier_def marshal_contentInfoEmpty_def
    marshal_signerInfo_def marshal_issuerAndSerial_def asn1_bigInt_def marshal_outerContentInfo_def asn1_setOf_def raw_values
  from assms obtain key cert sig where k: "Key signer = Some key" "SignPKCS1v15 rsa key (sha256 content) = Inr sig"
    "Cert signer = Some cert"
    by (auto simp: signPKCS7Detached_def Let_def split: option.splits sum.splits)
  with assms obtain serial where ser: "certSerialNumber cert = Some serial"
    by (cases "certSerialNumber cert") (auto simp: signPKCS7Detached_def Let_def marshal)
  let ?ias = "asn1_raw (zero_RawValue\<lparr> rvFullBytes := RawIssuer cert \<rparr>) @ asn1_INTEGER serial"
    and ?da = "asn1_element 0 6 False o3 @ asn1_element 0 5 False []" and ?dea = "asn1_element 0 6 False o4 @ asn1_element 0 5 False []"
  have "p7 = asn1_SEQUENCE (content_body o2 (signed_body (asn1_SEQUENCE ?da) (asn1_element 0 6 False o1) (Raw cert)
      (signer_body ?ias ?da ?dea sig)))"
    using assms k ser by (simp add: signPKCS7Detached_def Let_def marshal content_body_def signed_body_def signer_body_def
        pkcs7SignerVer_def pkcs7SignedVer_def)
  with k ser show ?thesis
    by (intro that) auto
qed


lemma der_fields_Some: "der_split b = Some es \<Longrightarrow> map fst es = ids \<Longrightarrow> der_fields ids b = Some (map snd es)"
  by (simp add: der_fields_def)

lemma pkcs7_read_layout:
  assumes "p7 = asn1_SEQUENCE (content_body oid (signed_body da ci certs (signer_body ias sda dea sig)))"
    and "length p7 < 2 ^ 64"
  shows "pkcs7_read p7 = Some (certs, ias, sig)"
proof -
  define si where "si = signer_body ias sda dea sig"
  define sd where "sd = signed_body da ci certs si"
  define cb where "cb = content_body oid sd"
  note el = length_asn1_element
  have c: "length cb < 2 ^ 64"
    using assms el [of cb 0 16 True] by (simp add: cb_def sd_def si_def)
  have e: "length (asn1_SEQUENCE sd) < 2 ^ 64" "length oid < 2 ^ 64"
    using c el [of "asn1_SEQUENCE sd" 2 0 True] el [of oid 0 6 False] by (simp_all add: cb_def content_body_def)
  have d: "length sd < 2 ^ 64"
    using e(1) el [of sd 0 16 True] by simp
  have f: "length (int_octets 1) < 2 ^ 64" "length da < 2 ^ 64" "length ci < 2 ^ 64" "length certs < 2 ^ 64"
    "length (asn1_SEQUENCE si) < 2 ^ 64"
    using d el [of "int_octets 1" 0 2 False] el [of da 0 17 True] el [of ci 0 16 True] el [of certs 2 0 True]
      el [of "asn1_SEQUENCE si" 0 17 True] by (simp_all add: sd_def signed_body_def asn1_INTEGER_def)
  have s: "length si < 2 ^ 64"
    using f(5) el [of si 0 16 True] by simp
  have g: "length ias < 2 ^ 64" "length sda < 2 ^ 64" "length dea < 2 ^ 64" "length sig < 2 ^ 64"
    using s el [of ias 0 16 True] el [of sda 0 16 True] el [of dea 0 16 True] el [of sig 0 4 False]
    by (simp_all add: si_def signer_body_def asn1_OCTETS_def)
  note split = der_split_element der_split_single
  have "der_split si = Some [(0x02, int_octets 1), (0x30, ias), (0x30, sda), (0x30, dea), (0x04, sig)]"
    unfolding si_def signer_body_def asn1_INTEGER_def asn1_OCTETS_def
    by (intro split asn1_tags f g)
  moreover have "der_split (asn1_SEQUENCE si) = Some [(0x30, si)]"
    by (intro split asn1_tags s)
  moreover have "der_split sd = Some [(0x02, int_octets 1), (0x31, da), (0x30, ci), (0xA0, certs), (0x31, asn1_SEQUENCE si)]"
    unfolding sd_def signed_body_def asn1_INTEGER_def by (intro split asn1_tags f)
  moreover have "der_split (asn1_SEQUENCE sd) = Some [(0x30, sd)]"
    by (intro split asn1_tags d)
  moreover have "der_split cb = Some [(0x06, oid), (0xA0, asn1_SEQUENCE sd)]"
    unfolding cb_def content_body_def by (intro split asn1_tags e)
  moreover have "der_split p7 = Some [(0x30, cb)]"
    unfolding assms(1) si_def [symmetric] sd_def [symmetric] cb_def [symmetric] by (intro split asn1_tags c)
  ultimately show ?thesis
    by (simp add: pkcs7_read_def der_fields_Some)
qed

lemma signPKCS7_read:
  assumes "signPKCS7Detached rsa content signer = Ok p7" and "length p7 < 2 ^ 64" and "rsa_spec rsa"
  obtains key cert serial sig where "Key signer = Some key" "Cert signer = Some cert" "certSerialNumber cert = Some serial"
    "pkcs7_read p7 = Some (Raw cert, asn1_raw (zero_RawValue\<lparr> rvFullBytes := RawIssuer cert \<rparr>) @ asn1_INTEGER serial, sig)"
    "VerifyPKCS1v15 rsa key (sha256 content) sig"
  using assms(1)
proof (rule signPKCS7_Ok)
  fix key cert serial sig ias da dea ci oid
  assume *: "Key signer = Some key" "Cert signer = Some cert" "certSerialNumber cert = Some serial"
    "SignPKCS1v15 rsa key (sha256 content) = Inr sig"
    "ias = asn1_raw (zero_RawValue\<lparr> rvFullBytes := RawIssuer cert \<rparr>) @ asn1_INTEGER serial"
    "p7 = asn1_SEQUENCE (content_body oid (signed_body (asn1_SEQUENCE da) ci (Raw cert) (signer_body ias da dea sig)))"
  with pkcs7_read_layout [OF *(6) assms(2)] assms(3) show thesis
    by (intro that [of key cert serial sig]) (auto simp: rsa_spec_def)
qed


subsection \<open>The descriptor\<close>

lemma Parse_wire:
  assumes "length t = 16"
  shows "ParseAuthentication2 (t @ le32_bytes dw @ le16_bytes rv @ le16_bytes ty @ bytes_of16 g @ rest) =
    bindR (parseEFITime t) (\<lambda>ts.
      if rv \<noteq> winCertRevision then Err (Leaf ''uefi: ParseAuthentication2: bad wRevision %#x'')
      else if ty \<noteq> winCertTypeEFIGUID then Err (Leaf ''uefi: ParseAuthentication2: bad wCertificateType %#x'')
      else if unat dw < 24 \<or> unat dw > 24 + length rest
      then Err (Leaf ''uefi: ParseAuthentication2: bad dwLength %d'')
      else Ok \<lparr> TimeStamp = ts, CertType = g, PKCS7 = take (unat dw - 24) rest \<rparr>)"
proof -
  let ?c = "le32_bytes dw @ le16_bytes rv @ le16_bytes ty @ bytes_of16 g @ rest"
  have c: "slice_from ?c 0 = Ok ?c" "slice_from ?c 4 = Ok (le16_bytes rv @ le16_bytes ty @ bytes_of16 g @ rest)"
    "slice_from ?c 6 = Ok (le16_bytes ty @ bytes_of16 g @ rest)" "slice ?c 8 24 = Ok (bytes_of16 g)" "length ?c = 24 + length rest"
    by (simp_all add: slice_from_def slice_def)
  have p: "slice ?c 24 (unat dw) = Ok (take (unat dw - 24) rest)" if "24 \<le> unat dw" "unat dw \<le> 24 + length rest"
    using that by (simp add: slice_def)
  have b: "slice (t @ ?c) 0 16 = Ok t" "slice_from (t @ ?c) 16 = Ok ?c" "\<not> length (t @ ?c) < 40"
    using assms by (simp_all add: slice_from_def slice_def)
  show ?thesis
  proof (cases "24 \<le> unat dw \<and> unat dw \<le> 24 + length rest")
    case True
    then show ?thesis
      unfolding ParseAuthentication2_def efiTimeSize_def winCertHeaderSize_def
      by (simp add: b c p Uint32_bytes Uint16_bytes del: append_assoc length_append cong: if_cong)
  next
    case False
    then have "unat dw < 24 \<or> unat dw > 24 + length rest"
      by auto
    then show ?thesis
      unfolding ParseAuthentication2_def efiTimeSize_def winCertHeaderSize_def
      by (simp add: b c Uint32_bytes Uint16_bytes del: append_assoc length_append cong: if_cong)
  qed
qed

lemma le_bytes_ex: "length b = 2 \<Longrightarrow> \<exists>w. b = le16_bytes w" "length c = 4 \<Longrightarrow> \<exists>w. c = le32_bytes w"
  by (auto simp: eval_nat_numeral length_Suc_conv) (metis le16_bytes_le16, metis le32_bytes_le32)

lemma descriptor_split:
  assumes "40 \<le> length b"
  obtains t dw rv ty g rest where "length t = 16"
    "b = t @ le32_bytes dw @ le16_bytes rv @ le16_bytes ty @ bytes_of16 g @ rest"
proof -
  have step: "take n (drop m b) @ drop (m + n) b = drop m b" for n m
    by (metis append_take_drop_id drop_drop add.commute)
  have "b = take 16 b @ take 4 (drop 16 b) @ take 2 (drop 20 b) @ take 2 (drop 22 b) @ take 16 (drop 24 b) @ drop 40 b"
    using step [of 16 24] step [of 2 22] step [of 2 20] step [of 4 16] by simp
  moreover have "length (take 16 b) = 16" "length (take 4 (drop 16 b)) = 4" "length (take 2 (drop 20 b)) = 2"
    "length (take 2 (drop 22 b)) = 2" "length (take 16 (drop 24 b)) = 16"
    using assms by simp_all
  ultimately show ?thesis
    using that le_bytes_ex bytes_of16_copy16 by metis
qed


lemma parseEFITime_16: "length t = 16 \<Longrightarrow> \<exists>e. parseEFITime t = Ok e"
  using Marshal_parse_EFITime by blast

lemma descriptor_parse_word:
  "unat dw = 24 + length p7 \<Longrightarrow>
     ParseAuthentication2 (Marshal_EFITime ts @ le32_bytes dw @ le16_bytes winCertRevision @
       le16_bytes winCertTypeEFIGUID @ bytes_of16 g @ p7 @ rest) = Ok \<lparr> TimeStamp = ts, CertType = g, PKCS7 = p7 \<rparr>"
  using parse_Marshal_EFITime [of ts "[]"] by (simp add: Parse_wire)

lemmas descriptor_parse = descriptor_parse_word [OF unat_of_nat_u32]

lemma descriptor_accepted:
  assumes "length t = 16" and "parseEFITime t = Ok (TimeStamp a)" and "24 + length (PKCS7 a) < 2 ^ 32"
  shows "ParseAuthentication2 (t @ le32_bytes (of_nat (24 + length (PKCS7 a))) @ le16_bytes winCertRevision @
    le16_bytes winCertTypeEFIGUID @ bytes_of16 (CertType a) @ PKCS7 a @ rest) = Ok a"
proof -
  obtain dw :: u32 where dw: "of_nat (24 + length (PKCS7 a)) = dw" "unat dw = 24 + length (PKCS7 a)"
    using unat_of_nat_u32 [OF assms(3)] by blast
  show ?thesis
    unfolding dw(1) Parse_wire [OF assms(1)] by (simp add: assms(2) dw(2))
qed

text \<open>What \<open>BuildAuthentication2\<close> returns: the descriptor, from which the parser recovers time
  stamp and blob whatever follows, and a blob in which a verifier finds a signature of the signed bytes.\<close>

lemma Build_Ok:
  assumes "BuildAuthentication2 rsa name guid attrs d ts signer = Ok desc" and "length desc < 2 ^ 32" and "rsa_spec rsa"
  obtains key cert serial sig p7 where "Key signer = Some key" "Cert signer = Some cert" "certSerialNumber cert = Some serial"
    "length desc = 40 + length p7"
    "\<And>rest. ParseAuthentication2 (desc @ rest) = Ok \<lparr> TimeStamp = ts, CertType = EFICertTypePKCS7GUID, PKCS7 = p7 \<rparr>"
    "pkcs7_read p7 = Some (Raw cert, asn1_raw (zero_RawValue\<lparr> rvFullBytes := RawIssuer cert \<rparr>) @ asn1_INTEGER serial, sig)"
    "VerifyPKCS1v15 rsa key (sha256 (digestTBS name guid attrs ts d)) sig"
proof -
  from assms(1) obtain p7 where p7: "signPKCS7Detached rsa (digestTBS name guid attrs ts d) signer = Ok p7"
    and desc: "desc = Marshal_EFITime ts @ le32_bytes (of_nat (24 + length p7)) @ le16_bytes winCertRevision @
      le16_bytes winCertTypeEFIGUID @ bytes_of16 EFICertTypePKCS7GUID @ p7"
    by (auto simp: BuildAuthentication2_def Let_def bindR_Ok_iff wrap_err_Ok_iff winCertHeaderSize_def split: if_splits)
  have len: "length desc = 40 + length p7"
    by (simp add: desc)
  with assms(2) have "length p7 < 2 ^ 64"
    by simp
  from p7 this assms(3) show ?thesis
  proof (rule signPKCS7_read)
    fix key cert serial sig
    assume k: "Key signer = Some key" "Cert signer = Some cert" "certSerialNumber cert = Some serial"
      "pkcs7_read p7 = Some (Raw cert, asn1_raw (zero_RawValue\<lparr> rvFullBytes := RawIssuer cert \<rparr>) @ asn1_INTEGER serial, sig)"
      "VerifyPKCS1v15 rsa key (sha256 (digestTBS name guid attrs ts d)) sig"
    have "ParseAuthentication2 (desc @ rest) = Ok \<lparr> TimeStamp = ts, CertType = EFICertTypePKCS7GUID, PKCS7 = p7 \<rparr>" for rest
      using descriptor_parse [of p7] len assms(2) by (simp add: desc)
    with k len show thesis
      by (intro that) auto
  qed
qed

lemma stored_below_4GiB:
  assumes "vsSet nv_store st v = (st', Ok ())"
  shows "length (vData v) < 2 ^ 32"
proof -
  obtain w s w' s' where st: "st = (w, s)" "st' = (w', s')"
    by (cases st, cases st')
  with assms have "flush w s (vars_set (vars s) v) = (w', s', Ok ())"
    by (auto simp: Set_var_flush split: prod.splits)
  then obtain orig buf where "buildStore orig (storeOff s) (storeSize s) (serializeVars (vars_set (vars s) v) (authVars s)) = Ok buf"
    by (auto simp: flush_def split: prod.splits res.splits if_splits)
  then have "length (serializeVars (vars_set (vars s) v) (authVars s)) \<le> unat (storeSize s)"
    by (auto simp: buildStore_eq Let_def split: if_splits)
  moreover have "length (vData v) \<le> length (encodeVariable v (authVars s))"
    using raw_size_le_encode [of v "authVars s"] by (simp add: raw_size_def)
  moreover have "length (encodeVariable v (authVars s)) \<le> length (serializeVars (vars_set (vars s) v) (authVars s))"
    by (simp add: serializeVars_def vars_set_def)
  ultimately show ?thesis
    using unat_u32_less [of "storeSize s"] by linarith
qed

lemma sign_total:
  assumes "Key signer = Some key" and "Cert signer = Some cert"
  shows "signPKCS7Detached rsa content signer \<noteq> Panic \<and>
    ((\<exists>p7. signPKCS7Detached rsa content signer = Ok p7) \<longleftrightarrow>
      (\<exists>sig. SignPKCS1v15 rsa key (sha256 content) = Inr sig) \<and> certSerialNumber cert \<noteq> None)"
  using asn1_OID_consts
  by (cases "SignPKCS1v15 rsa key (sha256 content)"; cases "certSerialNumber cert")
    (auto simp: signPKCS7Detached_def Let_def assms marshal_signedData_def marshal_algorithmIdentifier_def
      marshal_contentInfoEmpty_def marshal_signerInfo_def marshal_issuerAndSerial_def asn1_bigInt_def marshal_outerContentInfo_def)

lemma flag_set: "(a OR AttrTimeBasedAuthenticatedWriteAccess) AND AttrTimeBasedAuthenticatedWriteAccess \<noteq> 0"
proof -
  have "(a OR f) AND f = f" for f :: u32
    by (rule bit_word_eqI) (auto simp: bit_simps)
  then show ?thesis
    by (simp add: AttrTimeBasedAuthenticatedWriteAccess_def)
qed

lemma Build_total:
  "BuildAuthentication2 rsa name guid (a OR AttrTimeBasedAuthenticatedWriteAccess) d ts signer \<noteq> Panic \<and>
   ((\<exists>desc. BuildAuthentication2 rsa name guid (a OR AttrTimeBasedAuthenticatedWriteAccess) d ts signer = Ok desc) \<longleftrightarrow>
     (\<exists>key cert sig. Key signer = Some key \<and> Cert signer = Some cert \<and> certSerialNumber cert \<noteq> None \<and>
       SignPKCS1v15 rsa key (sha256 (digestTBS name guid (a OR AttrTimeBasedAuthenticatedWriteAccess) ts d)) = Inr sig))"
proof (cases "Key signer = None \<or> Cert signer = None")
  case True
  then show ?thesis
    by (auto simp: BuildAuthentication2_def)
next
  case False
  then obtain key cert where k: "Key signer = Some key" "Cert signer = Some cert"
    by auto
  note sign_total [OF this, of rsa "digestTBS name guid (a OR AttrTimeBasedAuthenticatedWriteAccess) ts d"]
  with k flag_set [of a] show ?thesis
    by (auto simp: BuildAuthentication2_def Let_def bindR_Ok_iff bindR_Panic_iff wrap_err_Ok_iff)
qed

lemma nv_set_not_Panic: "snd (vsSet nv_store st v) \<noteq> Panic"
  by (cases st) (auto simp: Set_var_flush split: prod.splits, metis flush_not_Panic snd_conv)

lemma Write_attrs:
  "WriteAuthenticatedVariable rsa vs st name guid attrs d ts signer =
     (let a = (if attrs = 0 then secureBootAttrs else attrs) OR AttrTimeBasedAuthenticatedWriteAccess in
      case BuildAuthentication2 rsa name guid a d ts signer of
        Panic \<Rightarrow> (st, Panic)
      | Err e \<Rightarrow> (st, Err e)
      | Ok desc \<Rightarrow>
          (case vsSet vs st \<lparr> vName = name, vGUID = guid, vAttributes = a, vData = desc @ d \<rparr> of
             (st', r) \<Rightarrow> (st', wrap_err ''uefi: WriteAuthenticatedVariable %q: %w'' r)))"
proof -
  have "(if attrs = 0 then secureBootAttrs OR AttrTimeBasedAuthenticatedWriteAccess else attrs) OR AttrTimeBasedAuthenticatedWriteAccess =
      (if attrs = 0 then secureBootAttrs else attrs) OR AttrTimeBasedAuthenticatedWriteAccess"
    by (simp add: or.assoc)
  then show ?thesis
    unfolding WriteAuthenticatedVariable_def Let_def by (simp only:)
qed

subsection \<open>Properties\<close>

text \<open>Property C6. A successful authenticated write stores, under its name and GUID and with the
  time-based authentication attribute set, a descriptor followed by the caller's data: ParseAuthentication2 on the
  stored bytes gives the time stamp and a PKCS#7 blob, the caller's data starts right after that blob, and an
  independent DER reader finds in the blob the signer's certificate, issuer and serial number and a
  signature that the signer's key verifies over the SHA-256 digest of name, GUID, the stored
  attributes, time stamp and data.\<close>

theorem WriteAuthenticatedVariable_verifies:
  assumes "rsa_spec rsa"
    and "WriteAuthenticatedVariable rsa nv_store st name guid attrs d ts signer = (st', Ok ())"
  shows "\<exists>v key cert serial sig p7. vs_lookup nv_store st' name guid = Some v \<and>
    vAttributes v = (if attrs = 0 then secureBootAttrs else attrs) OR AttrTimeBasedAuthenticatedWriteAccess \<and>
    Key signer = Some key \<and> Cert signer = Some cert \<and> certSerialNumber cert = Some serial \<and>
    ParseAuthentication2 (vData v) = Ok \<lparr> TimeStamp = ts, CertType = EFICertTypePKCS7GUID, PKCS7 = p7 \<rparr> \<and>
    drop (40 + length p7) (vData v) = d \<and>
    pkcs7_read p7 = Some (Raw cert, asn1_raw (zero_RawValue\<lparr> rvFullBytes := RawIssuer cert \<rparr>) @ asn1_INTEGER serial, sig) \<and>
    VerifyPKCS1v15 rsa key (sha256 (digestTBS name guid (vAttributes v) ts d)) sig"
proof -
  let ?a = "(if attrs = 0 then secureBootAttrs else attrs) OR AttrTimeBasedAuthenticatedWriteAccess"
  from assms(2) obtain desc where b: "BuildAuthentication2 rsa name guid ?a d ts signer = Ok desc"
    and s: "vsSet nv_store st \<lparr> vName = name, vGUID = guid, vAttributes = ?a, vData = desc @ d \<rparr> = (st', Ok ())"
    unfolding Write_attrs Let_def by (auto simp: wrap_err_Ok_iff split: res.splits prod.splits)
  have "length desc < 2 ^ 32"
    using stored_below_4GiB [OF s] by simp
  from b this assms(1) show ?thesis
  proof (rule Build_Ok)
    fix key cert serial sig p7
    assume "Key signer = Some key" "Cert signer = Some cert" "certSerialNumber cert = Some serial"
      "length desc = 40 + length p7"
      "\<And>rest. ParseAuthentication2 (desc @ rest) = Ok \<lparr> TimeStamp = ts, CertType = EFICertTypePKCS7GUID, PKCS7 = p7 \<rparr>"
      "pkcs7_read p7 = Some (Raw cert, asn1_raw (zero_RawValue\<lparr> rvFullBytes := RawIssuer cert \<rparr>) @ asn1_INTEGER serial, sig)"
      "VerifyPKCS1v15 rsa key (sha256 (digestTBS name guid ?a ts d)) sig"
    then show ?thesis
      using nv.set_lookup [OF s, of name guid]
      by (intro exI [of _ "\<lparr> vName = name, vGUID = guid, vAttributes = ?a, vData = desc @ d \<rparr>"] exI [of _ key] exI [of _ cert]
          exI [of _ serial] exI [of _ sig] exI [of _ p7]) simp
  qed
qed


text \<open>Property C18. ParseAuthentication2 never panics, and it accepts exactly the byte strings that are a
  16-byte EFI_TIME, a WIN_CERTIFICATE header with the right revision, type and honest length, a certificate
  type and a blob, followed by anything; it then returns that time, type and blob.\<close>

theorem ParseAuthentication2_exact:
  "ParseAuthentication2 b \<noteq> Panic \<and>
   (ParseAuthentication2 b = Ok a \<longleftrightarrow>
     (\<exists>t rest. length t = 16 \<and> parseEFITime t = Ok (TimeStamp a) \<and> 24 + length (PKCS7 a) < 2 ^ 32 \<and>
        b = t @ le32_bytes (of_nat (24 + length (PKCS7 a))) @ le16_bytes winCertRevision @ le16_bytes winCertTypeEFIGUID @
            bytes_of16 (CertType a) @ PKCS7 a @ rest))"
proof (cases "40 \<le> length b")
  case False
  then have "ParseAuthentication2 b = Err (Leaf ''uefi: ParseAuthentication2: buffer too small'')"
    by (simp add: ParseAuthentication2_def auth_consts)
  with False show ?thesis
    by auto
next
  case True
  then obtain t dw rv ty g rest where t: "length t = 16"
    and b: "b = t @ le32_bytes dw @ le16_bytes rv @ le16_bytes ty @ bytes_of16 g @ rest"
    by (rule descriptor_split)
  obtain e where e: "parseEFITime t = Ok e"
    using parseEFITime_16 [OF t] by blast
  note p = Parse_wire [OF t, of dw rv ty g rest, folded b, unfolded e]
  show ?thesis
  proof (intro conjI iffI)
    show "ParseAuthentication2 b \<noteq> Panic"
      by (simp add: p)
  next
    assume "ParseAuthentication2 b = Ok a"
    then have a: "rv = winCertRevision" "ty = winCertTypeEFIGUID" "24 \<le> unat dw" "unat dw \<le> 24 + length rest"
      "a = \<lparr> TimeStamp = e, CertType = g, PKCS7 = take (unat dw - 24) rest \<rparr>"
      by (auto simp: p split: if_splits)
    then have n: "24 + length (PKCS7 a) = unat dw"
      by simp
    have "b = t @ le32_bytes (of_nat (24 + length (PKCS7 a))) @ le16_bytes winCertRevision @ le16_bytes winCertTypeEFIGUID @
        bytes_of16 (CertType a) @ PKCS7 a @ drop (unat dw - 24) rest"
      unfolding n using a by (simp add: b)
    moreover have "24 + length (PKCS7 a) < 2 ^ 32"
      unfolding n by (rule unat_u32_less)
    ultimately show "\<exists>t rest. length t = 16 \<and> parseEFITime t = Ok (TimeStamp a) \<and> 24 + length (PKCS7 a) < 2 ^ 32 \<and>
        b = t @ le32_bytes (of_nat (24 + length (PKCS7 a))) @ le16_bytes winCertRevision @ le16_bytes winCertTypeEFIGUID @
            bytes_of16 (CertType a) @ PKCS7 a @ rest"
      using t e a(5) by (intro exI [of _ t] exI [of _ "drop (unat dw - 24) rest"]) simp
  next
    assume "\<exists>t rest. length t = 16 \<and> parseEFITime t = Ok (TimeStamp a) \<and> 24 + length (PKCS7 a) < 2 ^ 32 \<and>
        b = t @ le32_bytes (of_nat (24 + length (PKCS7 a))) @ le16_bytes winCertRevision @ le16_bytes winCertTypeEFIGUID @
            bytes_of16 (CertType a) @ PKCS7 a @ rest"
    then show "ParseAuthentication2 b = Ok a"
      using descriptor_accepted by blast
  qed
qed

lemma Encode_nul:
  "EncodeUTF16LE n = take (length (EncodeUTF16LE n) - 2) (EncodeUTF16LE n) @ [0, 0]" "2 \<le> length (EncodeUTF16LE n)"
  by (simp_all add: EncodeUTF16LE_def le16_bytes_def)

lemma digestTBS_eq:
  "digestTBS name guid attrs ts d =
     take (length (EncodeUTF16LE name) - 2) (EncodeUTF16LE name) @ bytes_of16 guid @ le32_bytes attrs @ Marshal_EFITime ts @ d"
  using Encode_nul(2) [of name] by (simp add: digestTBS_def Let_def)

lemma le32_bytes_inject [simp]: "le32_bytes v = le32_bytes w \<longleftrightarrow> v = w"
  by (metis Uint32_bytes res.inject(1))

text \<open>Property C21. The signed bytes bind what is written: for names whose UTF-16 forms have the same
  length, the signed bytes are equal exactly when the UTF-16 names, GUIDs, attributes, time stamps and data are.\<close>

theorem digestTBS_binding:
  assumes "length (EncodeUTF16LE name) = length (EncodeUTF16LE name')"
  shows "digestTBS name guid attrs ts d = digestTBS name' guid' attrs' ts' d' \<longleftrightarrow>
    EncodeUTF16LE name = EncodeUTF16LE name' \<and> guid = guid' \<and> attrs = attrs' \<and> ts = ts' \<and> d = d'"
proof -
  have "EncodeUTF16LE name = EncodeUTF16LE name' \<longleftrightarrow>
      take (length (EncodeUTF16LE name) - 2) (EncodeUTF16LE name) = take (length (EncodeUTF16LE name') - 2) (EncodeUTF16LE name')"
    using Encode_nul(1) [of name] Encode_nul(1) [of name'] by metis
  with assms show ?thesis
    by (simp add: digestTBS_eq)
qed

text \<open>Property C38. Failures before the write leave the store alone: with a nil key or certificate, a key
  that refuses to sign the digest, or a certificate without serial number, WriteAuthenticatedVariable reports an error
  and the store is the one it was given; and it never panics, so the attribute check cannot fail either. The key is nil or well-formed: signing with
  a malformed key, on which crypto/rsa may panic itself, is outside.\<close>

theorem WriteAuthenticatedVariable_errors:
  "(Key signer = None \<or> Cert signer = None \<or>
    (\<exists>key e. Key signer = Some key \<and> SignPKCS1v15 rsa key
       (sha256 (digestTBS name guid ((if attrs = 0 then secureBootAttrs else attrs) OR AttrTimeBasedAuthenticatedWriteAccess) ts d)) = Inl e) \<or>
    (\<exists>cert. Cert signer = Some cert \<and> certSerialNumber cert = None) \<longrightarrow>
      (\<exists>e. WriteAuthenticatedVariable rsa nv_store st name guid attrs d ts signer = (st, Err e))) \<and>
   snd (WriteAuthenticatedVariable rsa nv_store st name guid attrs d ts signer) \<noteq> Panic"
proof -
  let ?a = "(if attrs = 0 then secureBootAttrs else attrs) OR AttrTimeBasedAuthenticatedWriteAccess"
  note b = Build_total [of rsa name guid "if attrs = 0 then secureBootAttrs else attrs" d ts signer]
  show ?thesis
  proof (cases "BuildAuthentication2 rsa name guid ?a d ts signer")
    case (Ok desc)
    obtain st' r where s: "vsSet nv_store st \<lparr> vName = name, vGUID = guid, vAttributes = ?a, vData = desc @ d \<rparr> = (st', r)"
      by fastforce
    then have "r \<noteq> Panic"
      using nv_set_not_Panic by (metis snd_conv)
    moreover have "\<exists>key cert sig. Key signer = Some key \<and> Cert signer = Some cert \<and> certSerialNumber cert \<noteq> None \<and>
        SignPKCS1v15 rsa key (sha256 (digestTBS name guid ?a ts d)) = Inr sig"
      using b Ok by blast
    ultimately show ?thesis
      using Ok s by (auto simp: Write_attrs Let_def)
  next
    case (Err e)
    then show ?thesis
      by (simp add: Write_attrs Let_def)
  next
    case Panic
    with b show ?thesis by blast
  qed
qed

lemma uint_field: "0 \<le> i \<Longrightarrow> i < 2 ^ LENGTH('a) \<Longrightarrow> uint (word_of_int i :: 'a::len word) = i"
  by (simp add: uint_word_of_int)

text \<open>Property C20. EFITimeFromGoTime keeps the instant: for a time whose UTC year fits into 16 bits,
  whatever its location, the fields are a valid date and time of day, and they denote the same second;
  sub-second precision, zone and daylight are zero.\<close>

theorem EFITimeFromGoTime_denotes:
  assumes "0 \<le> time_Year (time_UTC t)" and "time_Year (time_UTC t) < 65536" and "EFITimeFromGoTime t = e"
  shows "valid_date (uint (Year e)) (uint (Month e)) (uint (Day e)) \<and>
    uint (Hour e) < 24 \<and> uint (Minute e) < 60 \<and> uint (Second e) < 60 \<and>
    unixSec t = 86400 * (civil_day (uint (Year e)) (uint (Month e)) (uint (Day e)) - epoch_day) +
      3600 * uint (Hour e) + 60 * uint (Minute e) + uint (Second e) \<and>
    Nanosecond e = 0 \<and> TimeZone e = 0 \<and> Daylight e = 0"
proof -
  let ?t = "time_UTC t"
  have sec: "local_sec ?t = unixSec t"
    by (simp add: local_sec_def time_UTC_def)
  have "time_Date ?t = (time_Year ?t, time_Month ?t, time_Day ?t)"
    by (simp add: time_Year_def time_Month_def time_Day_def)
  note date = time_Date_correct [OF this, unfolded sec]
  note clock = clock_fields [of ?t, unfolded sec]
  have f: "uint (Year e) = time_Year ?t" "uint (Month e) = time_Month ?t" "uint (Day e) = time_Day ?t"
    "uint (Hour e) = time_Hour ?t" "uint (Minute e) = time_Minute ?t" "uint (Second e) = time_Second ?t"
    "Nanosecond e = 0" "TimeZone e = 0" "Daylight e = 0"
    unfolding assms(3) [symmetric] EFITimeFromGoTime_def Let_def
    using assms(1,2) valid_date_bounds [OF date(1)] clock by (simp_all add: uint_field)
  have "unixSec t = 86400 * (unixSec t div 86400) + 3600 * time_Hour ?t + 60 * time_Minute ?t + time_Second ?t"
    using mult_div_mod_eq [of 86400 "unixSec t"] clock(1) by linarith
  then show ?thesis
    unfolding f using date clock by simp
qed

text \<open>EFI_TIME: parsing what Marshal writes gives the time back, whatever follows; and
  marshalling what was parsed from 16 bytes gives these bytes back with the two pad bytes cleared.\<close>

theorem EFITime_roundtrip:
  "parseEFITime (Marshal_EFITime e @ rest) = Ok e \<and>
   (length b = 16 \<longrightarrow> (\<exists>e'. parseEFITime b = Ok e' \<and> Marshal_EFITime e' = b[7 := 0, 15 := 0]))"
  by (simp add: parse_Marshal_EFITime Marshal_parse_EFITime)

subsection \<open>Witnesses\<close>

text \<open>A signature scheme with its contract, and a signer.\<close>

definition demo_rsa :: "unit rsa_api" where
  "demo_rsa = \<lparr> SignPKCS1v15 = (\<lambda>k d. Inr d), VerifyPKCS1v15 = (\<lambda>k d sig. sig = d) \<rparr>"

definition demo_cert :: Certificate where
  "demo_cert = \<lparr> Raw = [0x30, 0], RawIssuer = [0x30, 0], certSerialNumber = Some 7 \<rparr>"

definition demo_signer :: "unit AuthSigner" where
  "demo_signer = \<lparr> Key = Some (), Cert = Some demo_cert \<rparr>"

definition demo_time :: EFITime where
  "demo_time = \<lparr> Year = 2024, Month = 2, Day = 29, Hour = 12, Minute = 30, Second = 5, Nanosecond = 0, TimeZone = 0, Daylight = 0 \<rparr>"

lemma demo_rsa_spec: "rsa_spec demo_rsa"
  by (simp add: rsa_spec_def demo_rsa_def)

lemma demo_oids:
  "asn1_OID oidData = Ok [6, 9, 42, 134, 72, 134, 247, 13, 1, 7, 1]"
  "asn1_OID oidSignedData = Ok [6, 9, 42, 134, 72, 134, 247, 13, 1, 7, 2]"
  "asn1_OID oidSHA256 = Ok [6, 9, 96, 134, 72, 1, 101, 3, 4, 2, 1]"
  "asn1_OID oidRSAEncrypt = Ok [6, 9, 42, 134, 72, 134, 247, 13, 1, 1, 1]"
  by (simp_all add: asn1_OID_def pkcs7_oids asn1_base128_def nat_digits.simps asn1_element_def asn1_length_def)

lemma demo_p7:
  "\<exists>p7. signPKCS7Detached demo_rsa content demo_signer = Ok p7 \<and> length p7 \<le> 200"
  by (simp add: signPKCS7Detached_def demo_signer_def demo_rsa_def demo_cert_def Let_def marshal_signedData_def
      marshal_algorithmIdentifier_def demo_oids marshal_contentInfoEmpty_def marshal_signerInfo_def marshal_issuerAndSerial_def
      asn1_bigInt_def marshal_outerContentInfo_def asn1_setOf_def raw_values asn1_INTEGER_def int_octets.simps
      pkcs7SignerVer_def pkcs7SignedVer_def asn1_OCTETS_def asn1_element_def asn1_length_def nat_digits.simps
      asn1_raw_def zero_RawValue_def)


lemma demo_write:
  "\<exists>st'. WriteAuthenticatedVariable demo_rsa nv_store (demo_os, demo_store) ''dbx'' EFIImageSecurityDatabaseGUID 0 [1, 2, 3] demo_time demo_signer = (st', Ok ())"
proof -
  let ?a = "secureBootAttrs OR AttrTimeBasedAuthenticatedWriteAccess"
  obtain p7 where p7: "signPKCS7Detached demo_rsa (digestTBS ''dbx'' EFIImageSecurityDatabaseGUID ?a demo_time [1, 2, 3]) demo_signer = Ok p7"
    "length p7 \<le> 200"
    using demo_p7 by blast
  then obtain desc where b: "BuildAuthentication2 demo_rsa ''dbx'' EFIImageSecurityDatabaseGUID ?a [1, 2, 3] demo_time demo_signer = Ok desc"
    "length desc \<le> 240"
    using flag_set [of secureBootAttrs] by (simp add: BuildAuthentication2_def Let_def) (simp add: demo_signer_def)
  let ?v = "\<lparr> vName = ''dbx'', vGUID = EFIImageSecurityDatabaseGUID, vAttributes = ?a, vData = desc @ [1, 2, 3] \<rparr>"
  have "raw_size ?v False \<le> 300"
    using b(2) by (simp add: raw_size_def hdr_size_def length_Encode_ascii nv_consts)
  then have "length (encodeVariable ?v False) \<le> 304"
    using align4_bounds(2) [of "raw_size ?v False"] by (subst length_encodeVariable) simp_all
  then have "StoreHeaderSize + length (serializeVars (vars_set (vars demo_store) ?v) (authVars demo_store)) \<le> unat (storeSize demo_store)"
    by (simp add: vars_set_def demo_store_def serializeVars_def StoreHeaderSize_def)
  moreover obtain img where "backed demo_os demo_store img"
    using synced_backed [OF demo_synced(2)] by blast
  ultimately obtain st' where "vsSet nv_store (demo_os, demo_store) ?v = (st', Ok ())"
    using nv_set_fits [OF demo_synced(1)] by blast
  then show ?thesis
    using b(1) by (simp add: Write_attrs)
qed

theorem WriteAuthenticatedVariable_verifies_witness:
  "\<exists>st' v p7 sig. WriteAuthenticatedVariable demo_rsa nv_store (demo_os, demo_store) ''dbx'' EFIImageSecurityDatabaseGUID 0 [1, 2, 3] demo_time
       demo_signer = (st', Ok ()) \<and>
     vs_lookup nv_store st' ''dbx'' EFIImageSecurityDatabaseGUID = Some v \<and>
     ParseAuthentication2 (vData v) = Ok \<lparr> TimeStamp = demo_time, CertType = EFICertTypePKCS7GUID, PKCS7 = p7 \<rparr> \<and>
     pkcs7_read p7 = Some ([0x30, 0], [0x30, 0] @ asn1_INTEGER 7, sig) \<and>
     sig = sha256 (digestTBS ''dbx'' EFIImageSecurityDatabaseGUID (vAttributes v) demo_time [1, 2, 3])"
proof -
  obtain st' where w: "WriteAuthenticatedVariable demo_rsa nv_store (demo_os, demo_store) ''dbx'' EFIImageSecurityDatabaseGUID 0 [1, 2, 3] demo_time
      demo_signer = (st', Ok ())"
    using demo_write by blast
  from WriteAuthenticatedVariable_verifies [OF demo_rsa_spec w] w show ?thesis
    by (auto simp: demo_signer_def demo_cert_def demo_rsa_def asn1_raw_def)
qed

theorem WriteAuthenticatedVariable_errors_witness:
  "\<exists>e. WriteAuthenticatedVariable demo_rsa nv_store (demo_os, demo_store) ''dbx'' EFIImageSecurityDatabaseGUID 0 [1] demo_time
     (demo_signer\<lparr> Cert := None \<rparr>) = ((demo_os, demo_store), Err e)"
  using WriteAuthenticatedVariable_errors [of "demo_signer\<lparr> Cert := None \<rparr>" demo_rsa "''dbx''" EFIImageSecurityDatabaseGUID 0 demo_time
      "[1]" "(demo_os, demo_store)"] by simp

theorem EFITime_roundtrip_witness:
  "\<exists>e. parseEFITime [232, 7, 2, 29, 12, 30, 5, 9, 0, 0, 0, 0, 0, 0, 0, 9] = Ok e \<and>
     Marshal_EFITime e = [232, 7, 2, 29, 12, 30, 5, 0, 0, 0, 0, 0, 0, 0, 0, 0]"
  using EFITime_roundtrip [of demo_time "[]" "[232, 7, 2, 29, 12, 30, 5, 9, 0, 0, 0, 0, 0, 0, 0, 9]"] by simp

theorem digestTBS_binding_witness:
  "digestTBS ''db'' EFIGlobalVariableGUID 7 demo_time [1] \<noteq> digestTBS ''db'' EFIGlobalVariableGUID 39 demo_time [1]"
  using digestTBS_binding [of "''db''" "''db''" EFIGlobalVariableGUID 7 demo_time "[1]" EFIGlobalVariableGUID 39 demo_time "[1]"] by simp


theorem EFITimeFromGoTime_denotes_witness:
  "EFITimeFromGoTime \<lparr> unixSec = 1709209805, nsec = 42, zoneOffset = 3600 \<rparr> = demo_time \<and>
   1709209805 = 86400 * (civil_day 2024 2 29 - epoch_day) + 3600 * 12 + 60 * 30 + 5"
proof -
  let ?t = "\<lparr> unixSec = 1709209805, nsec = 42, zoneOffset = 3600 \<rparr>"
  have "year_yday 738944 = (2024, 59)"
    by (simp add: year_yday_def)
  then have date: "time_Date (time_UTC ?t) = (2024, 2, 29)"
    by (simp add: time_Date_def local_sec_def time_UTC_def epoch_day_def month_lengths_def is_leap_def)
  have clock: "time_Hour (time_UTC ?t) = 12" "time_Minute (time_UTC ?t) = 30" "time_Second (time_UTC ?t) = 5"
    by (simp_all add: time_Hour_def time_Minute_def time_Second_def local_sec_def time_UTC_def)
  have "0 \<le> time_Year (time_UTC ?t)" "time_Year (time_UTC ?t) < 65536"
    by (simp_all add: time_Year_def date)
  moreover have "EFITimeFromGoTime ?t = demo_time"
    by (simp add: EFITimeFromGoTime_def Let_def demo_time_def time_Year_def time_Month_def time_Day_def date clock)
  ultimately show ?thesis
    using EFITimeFromGoTime_denotes [of ?t demo_time] by (simp add: demo_time_def)
qed

end
