(* ===== verification/Client_Runs.thy ===== *)
theory Client_Runs
  imports Boot_Vars Auth_Write
begin

text \<open>
  Runs of the clients of one file store: the boot manager, the Secure Boot enrolment, the authenticated
  writes and the filesystem adapter, in any order. Every operation is a sequence of the store's
  own steps, whatever it returns, so the invariant of the store's runs carries over to them.
\<close>

datatype 'k client_op =
    OpSetBootOrder "u16 list"
  | OpSetBootEntry u16 LoadOption
  | OpDeleteBootEntry u16
  | OpAddBootEntry LoadOption
  | OpSetBootNext u16
  | OpClearBootNext
  | OpSetBootCurrent u16
  | OpSetTimeout u16
  | OpEnroll SecureBootKeys
  | OpWriteAuthenticated string GUID Attributes bytes EFITime "'k AuthSigner"
  | OpWriteFile string bytes
  | OpDeleteFile string
  | OpRename string string

text \<open>The state after an operation; its result is dropped.\<close>

fun run_op :: "'k rsa_api \<Rightarrow> 'k client_op \<Rightarrow> os \<times> store \<Rightarrow> os \<times> store" where
  "run_op rsa (OpSetBootOrder order) st = fst (SetBootOrder nv_store st order)"
| "run_op rsa (OpSetBootEntry n lo) st = fst (SetBootEntry nv_store st n lo)"
| "run_op rsa (OpDeleteBootEntry n) st = fst (DeleteBootEntry nv_store st n)"
| "run_op rsa (OpAddBootEntry lo) st = fst (AddBootEntry nv_store st lo)"
| "run_op rsa (OpSetBootNext n) st = fst (SetBootNext nv_store st n)"
| "run_op rsa OpClearBootNext st = fst (ClearBootNext nv_store st)"
| "run_op rsa (OpSetBootCurrent n) st = fst (SetBootCurrent nv_store st n)"
| "run_op rsa (OpSetTimeout n) st = fst (SetTimeout nv_store st n)"
| "run_op rsa (OpEnroll keys) st = fst (EnrollSecureBootKeys nv_store st keys)"
| "run_op rsa (OpWriteAuthenticated name guid attrs d ts signer) st =
     fst (WriteAuthenticatedVariable rsa nv_store st name guid attrs d ts signer)"
| "run_op rsa (OpWriteFile p d) (w, s) = (case WriteFile_fs w s p d of (w', s', r) \<Rightarrow> (w', s'))"
| "run_op rsa (OpDeleteFile p) (w, s) = (case DeleteFile w s p of (w', s', r) \<Rightarrow> (w', s'))"
| "run_op rsa (OpRename p q) (w, s) = (case Rename w s p q of (w', s', r) \<Rightarrow> (w', s'))"

text \<open>Names that a caller chooses are valid UTF-8; every other name is one of the package's own.\<close>

fun valid_op :: "'k client_op \<Rightarrow> bool" where
  "valid_op (OpWriteAuthenticated name guid attrs d ts signer) \<longleftrightarrow> valid_utf8 name"
| "valid_op (OpWriteFile p d) \<longleftrightarrow> valid_utf8 p"
| "valid_op (OpRename p q) \<longleftrightarrow> valid_utf8 q"
| "valid_op _ \<longleftrightarrow> True"

subsection \<open>Operations as sequences of store steps\<close>

definition room :: "nat \<Rightarrow> os \<times> store \<Rightarrow> bool" where
  "room k st \<longleftrightarrow> int (length (vars (snd st))) + int k \<le> sint (MaxVariables (lim (snd st)))"

text \<open>A run of store steps that adds at most \<open>k\<close> variables.\<close>

definition adds :: "'g safeio \<Rightarrow> nat \<Rightarrow> os \<times> store \<Rightarrow> os \<times> store \<Rightarrow> bool" where
  "adds sio k st st' \<longleftrightarrow> (store_step sio)\<^sup>*\<^sup>* st st' \<and> length (vars (snd st')) \<le> length (vars (snd st)) + k \<and>
     lim (snd st') = lim (snd st)"

lemma adds_refl: "adds sio k st st"
  by (simp add: adds_def)

lemma adds_trans: "adds sio j st st1 \<Longrightarrow> adds sio k st1 st2 \<Longrightarrow> adds sio (j + k) st st2"
  by (auto simp: adds_def)

lemma adds_mono: "adds sio j st st' \<Longrightarrow> j \<le> k \<Longrightarrow> adds sio k st st'"
  by (auto simp: adds_def)

lemma adds_room: "adds sio j st st' \<Longrightarrow> room (j + k) st \<Longrightarrow> room k st'"
  by (auto simp: adds_def room_def)

lemma flush_state: "flush w s vs = (w', s', r) \<Longrightarrow> s' = s \<or> s' = s\<lparr>vars := vs\<rparr>"
  by (auto simp: flush_def split: prod.splits res.splits if_splits)

lemma adds_Set:
  assumes "Set_var w s v = (w', s', r)" and "valid_utf8 (vName v)" and "room 1 (w, s)"
  shows "adds sio 1 (w, s) (w', s')"
proof -
  have len: "length (vars_set (vars s) v) \<le> Suc (length (vars s))"
    by (simp add: vars_set_def)
  then have "store_step sio (w, s) (w', s')"
    using assms by (intro step_set) (auto simp: room_def)
  moreover have "s' = s \<or> s' = s\<lparr>vars := vars_set (vars s) v\<rparr>"
    using flush_state assms(1) by (simp add: Set_var_flush)
  ultimately show ?thesis
    using len by (auto simp: adds_def)
qed

lemma adds_Delete:
  assumes "Delete w s n g = (w', s', r)"
  shows "adds sio 0 (w, s) (w', s')"
proof -
  have "s' = s \<or> s' = s\<lparr>vars := vars_delete (vars s) n g\<rparr>"
    using flush_state assms by (auto simp: Delete_flush split: if_splits)
  moreover have "store_step sio (w, s) (w', s')"
    by (rule step_delete [OF assms])
  ultimately show ?thesis
    by (auto simp: adds_def vars_delete_def)
qed

lemma adds_vsSet: "valid_utf8 (vName v) \<Longrightarrow> room 1 st \<Longrightarrow> adds sio 1 st (fst (vsSet nv_store st v))"
  by (cases st) (auto intro: adds_Set simp del: One_nat_def split: prod.splits)

lemma adds_vsDelete: "adds sio 0 st (fst (vsDelete nv_store st n g))"
  by (cases st) (auto intro: adds_Delete split: prod.splits)

lemma adds_setGlobal: "valid_utf8 name \<Longrightarrow> room 1 st \<Longrightarrow> adds sio 1 st (fst (setGlobal nv_store st name d))"
  unfolding setGlobal_def by (rule adds_vsSet) simp_all

lemma package_names: "valid_utf8 (bootName n)" "valid_utf8 ''BootOrder''" "valid_utf8 ''BootNext''" "valid_utf8 ''BootCurrent''"
  "valid_utf8 ''Timeout''" "valid_utf8 ''db''" "valid_utf8 ''KEK''" "valid_utf8 ''PK''"
  by (simp_all add: valid_utf8_ascii bootName_ascii)

lemma adds_SetBootEntry: "room 1 st \<Longrightarrow> adds sio 1 st (fst (SetBootEntry nv_store st n lo))"
  by (auto simp: SetBootEntry_def package_names adds_refl intro: adds_setGlobal simp del: One_nat_def split: res.splits)

lemma adds_AddBootEntry:
  assumes "room 2 st"
  shows "adds sio 2 st (fst (AddBootEntry nv_store st lo))"
proof (cases "lowestFreeBootNum nv_store st")
  case (Some n)
  obtain st1 r1 where 1: "SetBootEntry nv_store st n lo = (st1, r1)"
    by fastforce
  have r1: "adds sio 1 st st1"
    using adds_SetBootEntry [of st sio n lo] assms 1 by (simp add: room_def)
  have r2: "adds sio 1 st1 (fst (SetBootOrder nv_store st1 order))" for order
    unfolding SetBootOrder_def using adds_room [OF r1, of 1] assms by (intro adds_setGlobal package_names) (simp add: numeral_2_eq_2)
  have "adds sio 2 st (fst (SetBootOrder nv_store st1 order))" for order
    using adds_trans [OF r1 r2 [of order]] by (simp add: numeral_2_eq_2)
  moreover have "adds sio 2 st st1"
    using r1 by (rule adds_mono) simp
  ultimately show ?thesis
    using Some 1 by (auto simp: AddBootEntry_def split: res.splits prod.splits) (metis fst_conv)+
qed (simp add: AddBootEntry_def adds_refl)

lemma adds_enrollOne:
  "valid_utf8 name \<Longrightarrow> room 1 st \<Longrightarrow> adds sio 1 st (fst (enrollOne nv_store st name ns cert))"
  using adds_vsSet [of "\<lparr> vName = name, vGUID = ns, vAttributes = secureBootAttrs, vData = sl \<rparr>" st sio for sl]
  by (auto simp: enrollOne_def adds_refl split: res.splits prod.splits) (metis fst_conv)

lemma adds_enroll_loop:
  "\<forall>(name, ns, c) \<in> set es. valid_utf8 name \<Longrightarrow> room (length es) st \<Longrightarrow>
     adds sio (length es) st (fst (enroll_loop nv_store st es))"
proof (induction es arbitrary: st)
  case (Cons e es)
  obtain name ns c where e: "e = (name, ns, c)"
    by (cases e) auto
  obtain st1 r1 where 1: "enrollOne nv_store st name ns c = (st1, r1)"
    by fastforce
  have r1: "adds sio 1 st st1"
    using adds_enrollOne [of name st sio ns c] Cons.prems e 1 by (simp add: room_def)
  have "adds sio (length es) st1 (fst (enroll_loop nv_store st1 es))"
    using Cons.prems adds_room [OF r1, of "length es"] by (intro Cons.IH) auto
  from adds_trans [OF r1 this] adds_mono [OF r1, of "Suc (length es)"] show ?case
    by (cases r1) (simp_all add: e 1)
qed (simp add: adds_refl)

lemma adds_Rename:
  assumes "valid_utf8 q" and "room 1 (w, s)"
  shows "adds sio 1 (w, s) (case Rename w s p q of (w', s', r) \<Rightarrow> (w', s'))"
proof (cases "Get s p DefaultNamespaceGUID")
  case (Ok v)
  obtain w1 s1 r1 where 1: "Set_var w s (v\<lparr>vName := q\<rparr>) = (w1, s1, r1)"
    by (cases "Set_var w s (v\<lparr>vName := q\<rparr>)")
  obtain w2 s2 r2 where 2: "Delete w1 s1 p DefaultNamespaceGUID = (w2, s2, r2)"
    by (cases "Delete w1 s1 p DefaultNamespaceGUID")
  have a: "adds sio 1 (w, s) (w1, s1)"
    by (rule adds_Set [OF 1]) (cases v; use assms in simp)+
  from adds_trans [OF a adds_Delete [OF 2]] have "adds sio 1 (w, s) (w2, s2)"
    by simp
  with a show ?thesis
    by (cases r1) (simp_all add: Rename_def Ok 1 2)
qed (simp_all add: Rename_def adds_refl)

lemma fst_case: "fst (case x of (a, r) \<Rightarrow> (a, f r)) = fst x"
  by (cases x) simp

lemma adds_boot_delete:
  "adds sio 0 st (fst (DeleteBootEntry nv_store st n))" "adds sio 0 st (fst (ClearBootNext nv_store st))"
  by (auto simp: DeleteBootEntry_def ClearBootNext_def fst_case adds_vsDelete adds_refl split: res.splits option.splits)

lemma adds_boot_set:
  assumes "room 1 st"
  shows "adds sio 1 st (fst (SetBootOrder nv_store st order))" "adds sio 1 st (fst (SetBootNext nv_store st n))"
    "adds sio 1 st (fst (SetBootCurrent nv_store st n))" "adds sio 1 st (fst (SetTimeout nv_store st n))"
  unfolding SetBootOrder_def SetBootNext_def SetBootCurrent_def SetTimeout_def
  by (intro adds_setGlobal package_names assms)+

lemma adds_Enroll: "room 3 st \<Longrightarrow> adds sio 3 st (fst (EnrollSecureBootKeys nv_store st keys))"
  using adds_enroll_loop [of "[(''db'', EFIImageSecurityDatabaseGUID, DB keys), (''KEK'', EFIGlobalVariableGUID, KEK keys),
      (''PK'', EFIGlobalVariableGUID, PK keys)]" st sio] package_names
  unfolding EnrollSecureBootKeys_def by (simp add: numeral_3_eq_3 del: enroll_loop.simps)

lemma adds_WriteAuthenticated:
  assumes "valid_utf8 name" and "room 1 st"
  shows "adds sio 1 st (fst (WriteAuthenticatedVariable rsa nv_store st name guid attrs d ts signer))"
proof -
  have "adds sio 1 st (fst (vsSet nv_store st \<lparr> vName = name, vGUID = guid, vAttributes = a, vData = x \<rparr>))" for a x
    by (rule adds_vsSet) (use assms in simp_all)
  then show ?thesis
    by (simp add: Write_attrs Let_def fst_case adds_refl split: res.split del: One_nat_def)
qed

lemma adds_file_write:
  assumes "valid_utf8 p" and "room 1 (w, s)"
  shows "adds sio 1 (w, s) (case WriteFile_fs w s p d of (w', s', r) \<Rightarrow> (w', s'))"
proof -
  obtain w' s' r where 1: "Set_var w s \<lparr> vName = p, vGUID = DefaultNamespaceGUID, vAttributes = default_attrs, vData = d \<rparr> = (w', s', r)"
    by (rule prod_cases3)
  have "adds sio 1 (w, s) (w', s')"
    by (rule adds_Set [OF 1]) (use assms in simp_all)
  then show ?thesis
    by (simp add: WriteFile_fs_def 1)
qed

lemma adds_file_delete: "adds sio 0 (w, s) (case DeleteFile w s p of (w', s', r) \<Rightarrow> (w', s'))"
  by (auto simp: DeleteFile_def split: prod.splits intro: adds_Delete)

text \<open>Every operation is a run of store steps that adds at most three variables.\<close>

lemma run_op_adds:
  assumes "valid_op op" and "room 3 st"
  shows "adds sio 3 st (run_op rsa op st)"
proof -
  obtain w s where st: "st = (w, s)"
    by (cases st)
  have r: "room 1 st" "room 2 st" "room 1 (w, s)"
    using assms(2) by (simp_all add: room_def st)
  note one = adds_mono [of sio 1 st _ 3] and two = adds_mono [of sio 2 st _ 3] and zero = adds_mono [of sio 0 st _ 3]
  show ?thesis
  proof (cases op)
    case (OpRename p q)
    with assms(1) show ?thesis
      using one [OF adds_Rename [of q w s sio p, folded st]] r(3) by (simp add: st)
  next
    case (OpWriteFile p d)
    with assms(1) show ?thesis
      using one [OF adds_file_write [of p w s sio d, folded st]] r(3) by (simp add: st)
  next
    case (OpDeleteFile p)
    then show ?thesis
      using zero [OF adds_file_delete [of sio w s p, folded st]] by (simp add: st)
  next
    case (OpWriteAuthenticated name guid attrs d ts signer)
    with assms(1) show ?thesis
      using one [OF adds_WriteAuthenticated [of name st sio rsa guid attrs d ts signer]] r(1) by simp
  qed (simp_all add: r one [OF adds_boot_set(1)] one [OF adds_boot_set(2)] one [OF adds_boot_set(3)] one [OF adds_boot_set(4)]
      one [OF adds_SetBootEntry] two [OF adds_AddBootEntry] zero [OF adds_boot_delete(1)] zero [OF adds_boot_delete(2)]
      adds_Enroll assms(2) del: One_nat_def)
qed

lemma run_ops_adds:
  "\<forall>op \<in> set ops. valid_op op \<Longrightarrow> room (3 * length ops) st \<Longrightarrow> adds sio (3 * length ops) st (fold (run_op rsa) ops st)"
proof (induction ops arbitrary: st)
  case (Cons op ops)
  have 1: "adds sio 3 st (run_op rsa op st)"
    using Cons.prems by (intro run_op_adds) (simp_all add: room_def)
  have "adds sio (3 * length ops) (run_op rsa op st) (fold (run_op rsa) ops (run_op rsa op st))"
    using Cons.prems adds_room [OF 1, of "3 * length ops"] by (intro Cons.IH) simp_all
  from adds_trans [OF 1 this] show ?case
    by simp
qed (simp add: adds_refl)

end
