(* ===== verification/Loop_Guards.thy ===== *)
theory Loop_Guards
  imports Load_Option
begin

text \<open>
  The loop guards of safeio are a safety net: every loop that has one ends on its own first. The
  lemmas compare a loop with the same loop under a guard that never trips; that the latter is a
  total function at all is the termination proof of the loop, by its growing offset.
\<close>

definition unguarded :: "'g safeio \<Rightarrow> 'g safeio" where
  "unguarded sio = sio\<lparr> GuardNext := Inr \<rparr>"

lemma unguarded_sel [simp]:
  "CheckBounds (unguarded sio) = CheckBounds sio" "MakeBytes (unguarded sio) = MakeBytes sio"
  "NewLoopGuard (unguarded sio) = NewLoopGuard sio" "GuardNext (unguarded sio) g = Inr g"
  by (simp_all add: unguarded_def)

lemma unguarded_allows [simp]: "guard_allows (unguarded sio) g n"
  by (induction n) simp_all

lemma unguarded_spec: "safeio_spec sio \<Longrightarrow> safeio_spec (unguarded sio)"
  by (simp add: safeio_spec_def safeio_bounds_def safeio_guard_def safeio_make_def)

lemma dp_loop_unguarded:
  assumes sb: "safeio_bounds sio"
  shows "off \<le> length b \<Longrightarrow> guard_allows sio g (Suc (length b - off)) \<Longrightarrow>
    dp_loop sio b g off acc = dp_loop (unguarded sio) b g' off acc"
proof (induction "length b - off" arbitrary: off g g' acc rule: less_induct)
  case less
  obtain g1 where g1: "GuardNext sio g = Inr g1" "guard_allows sio g1 (length b - off)"
    using guard_allows_SucD [OF less.prems(2)] by blast
  have ih: "dp_loop sio b g1 (off + unat l) (acc @ [n]) = dp_loop (unguarded sio) b g' (off + unat l) (acc @ [n])"
    if "CheckBounds sio (int off) (int (unat l)) (int (length b)) = None" "\<not> unat l < devPathHeaderSize" for l :: u16 and n
  proof -
    have "int off + int (unat l) \<le> int (length b)"
      using that(1) CheckBounds_None [OF sb] by blast
    moreover have "4 \<le> unat l"
      using that(2) by (simp add: devPathHeaderSize_def)
    ultimately have "off + unat l \<le> length b" "4 \<le> unat l"
      by linarith+
    then show ?thesis
      using guard_allows_mono [OF g1(2), of "Suc (length b - (off + unat l))"] by (intro less.hyps) linarith+
  qed
  show ?case
    by (subst dp_loop.simps [of sio b g], subst dp_loop.simps [of "unguarded sio" b g'])
      (auto simp: g1(1) check_def Let_def ih split: option.split intro!: bindR_cong)
qed

lemma desc_scan_unguarded:
  "i \<le> length b \<Longrightarrow> guard_allows sio g (Suc (length b - i)) \<Longrightarrow> desc_scan sio b g i = desc_scan (unguarded sio) b g' i"
proof (induction "length b - i" arbitrary: i g g' rule: less_induct)
  case less
  obtain g1 where g1: "GuardNext sio g = Inr g1" "guard_allows sio g1 (length b - i)"
    using guard_allows_SucD [OF less.prems(2)] by blast
  have ih: "desc_scan sio b g1 (i + 2) = desc_scan (unguarded sio) b g' (i + 2)" if "i + 2 \<le> length b"
    using that guard_allows_mono [OF g1(2), of "Suc (length b - (i + 2))"] by (intro less.hyps) linarith+
  show ?case
    by (subst desc_scan.simps [of sio b g], subst desc_scan.simps [of "unguarded sio" b g'])
      (simp add: g1(1) ih cong: if_cong del: add_2_eq_Suc')
qed

lemma ParseDevicePath_unguarded: "safeio_spec sio \<Longrightarrow> ParseDevicePath sio b = ParseDevicePath (unguarded sio) b"
  using dp_loop_unguarded [of sio 0 b "NewLoopGuard sio (int (length b) + 1)"]
    safeio_guard_allows [of sio "Suc (length b)"] safeio_specD [of sio]
  by (simp add: ParseDevicePath_def add.commute)

lemma ParseLoadOption_unguarded:
  assumes "safeio_spec sio"
  shows "ParseLoadOption sio b = ParseLoadOption (unguarded sio) b"
proof (cases "6 \<le> length b")
  case True
  have "guard_allows sio (NewLoopGuard sio (int (Suc (length b)))) (Suc (length b))"
    using assms by (intro safeio_guard_allows safeio_specD)
  then have "guard_allows sio (NewLoopGuard sio (int (length b) + 1)) (Suc (length b - 6))"
    using guard_allows_mono [of sio _ "Suc (length b)" "Suc (length b - 6)"] by (simp add: add.commute)
  note scan = desc_scan_unguarded [OF True this, of "NewLoopGuard sio (int (length b) + 1)"]
  show ?thesis
    unfolding ParseLoadOption_def load_option_tail_def unguarded_sel scan ParseDevicePath_unguarded [OF assms] by (rule refl)
next
  case False
  then have "CheckBounds sio 0 6 (int (length b)) \<noteq> None"
    using assms by (simp add: CheckBounds_None safeio_specD)
  then show ?thesis
    by (auto simp: ParseLoadOption_def)
qed

lemma parseVariables_unguarded:
  assumes "safeio_spec sio" and "length data + 64 \<le> 2 ^ 32" and "unat storeOff + 92 \<le> 2 ^ 32"
  shows "parseVariables sio data storeOff storeSize a maxVars = parseVariables (unguarded sio) data storeOff storeSize a maxVars"
  using parseVariables_eq_walk [OF assms] parseVariables_eq_walk [OF unguarded_spec [OF assms(1)] assms(2,3)] by simp

end
