(* ===== verification/Spec2Isabelle.thy ===== *)
theory Spec2Isabelle
  imports Client_Runs Loop_Guards
begin

text \<open>
  A verification library for the Go package \<open>filesystem_uefi\<close> (repository go-filesystems/uefi), which
  reads and writes UEFI variable stores, the NvVar files of QEMU firmware, and builds on them boot
  manager variables, Secure Boot enrolment, authenticated writes and a filesystem view.

  \<^bold>\<open>The program's parts and the theories.\<close>

  \<^item> \<open>Uefi_Prelude\<close>: the types of the model (byte, u16, u32, u64, byte strings), errors as values (\<open>go_error\<close>,
    \<open>errors_Is\<close>, and \<open>res\<close> with \<open>Ok\<close>, \<open>Err\<close> and \<open>Panic\<close>, where \<open>Panic\<close> is a Go runtime panic), checked indexing, slicing and
    copying, little-endian codecs, and the shared automation.
  \<^item> \<open>Go_Text\<close>, \<open>Go_Os\<close>, \<open>Go_Crypto\<close>, \<open>Go_Time\<close>: what the package uses of Go and its standard library. Strings are
    byte sequences with Go's UTF-8 decoding; utf16 and the fmt verbs in use; a file system whose reads and
    writes may fail as scripts of outcomes say (\<open>quiet\<close> means that none does); SHA-256, the DER encoder of
    encoding/asn1 and the contract of crypto/rsa; the Gregorian calendar of time.Time.
  \<^item> \<open>Safeio\<close>: the third-party module go-volumes/safeio, a parameter with the contract \<open>safeio_spec\<close> that its
    call sites document; \<open>counting_safeio\<close> is an instance of it.
  \<^item> \<open>Nv_Codec\<close> (uefi.go): variable records. \<open>encodeVariable\<close>, \<open>serializeVars\<close>, \<open>parseOneVariable\<close>, \<open>parseVariables\<close>, \<open>buildStore\<close>, with
    the 32-bit offsets of the source. \<open>walk\<close> is the specification of the record walk in unbounded arithmetic.
  \<^item> \<open>Store_Interface\<close> (uefi.go): the Go interface VariableStore as a table of methods over a state, and its
    contract, the locales \<open>variable_store\<close> and \<open>framed_store\<close>.
  \<^item> \<open>Var_Store\<close> (uefi.go): the struct store as a record with the operating system's state passed along:
    \<open>OpenLimits\<close>, \<open>Open\<close>, \<open>Get\<close>, \<open>Set_var\<close>, \<open>Delete\<close>, \<open>flush\<close>. Its method table \<open>nv_store\<close> interprets both contracts.
  \<^item> \<open>Format_Store\<close> (format.go): \<open>Format\<close> and \<open>FormatOVMF\<close>, with the images they build.
  \<^item> \<open>Store_Runs\<close>: the step relation \<open>store_step\<close> of an opened store and the invariant of its runs.
  \<^item> \<open>Fs_Adapter\<close> (filesystem.go): the store as a flat directory; \<open>flat_fs\<close> is the contract of its clients. NewDirEntry and
    NewStat of the module go-filesystems/interface are a parameter.
  \<^item> \<open>Device_Path\<close> (devicepath.go): the node codec with its specification \<open>path_spec\<close>, typed nodes, the text form.
  \<^item> \<open>Load_Option\<close> and \<open>Boot_Vars\<close> (bootvars.go): load options, and the boot manager's variables over any
    VariableStore; lemmas are proved in \<open>variable_store\<close> and carried to \<open>nv_store\<close> by its interpretation.
  \<^item> \<open>Secure_Boot\<close> (secureboot.go): signature lists and the enrolment of db, KEK and PK, in \<open>framed_store\<close>.
  \<^item> \<open>Auth_Write\<close> (authwrite.go): EFI_TIME, the signed bytes, the descriptor, the PKCS#7 structures and the write.
    \<open>pkcs7_read\<close> is the specification of what a verifier reads in the blob.
  \<^item> \<open>Loop_Guards\<close> and \<open>Client_Runs\<close>: the loops without their guards, and runs of all clients on one store, for the
    properties of this theory.

  A definition has the name of the Go function it models, with a suffix where HOL has the name already
  (\<open>Set_var\<close>, \<open>List_vars\<close>, \<open>WriteFile_fs\<close>, \<open>Marshal_EFITime\<close>); loops are functions of their own. Error messages are the
  format strings of the source without the operands, and \<open>Wrap\<close> stands for the verb \<open>%w\<close>.

  \<^bold>\<open>What the theorems show.\<close> Opening never panics, and reading takes in at most one byte more than the size
  limit, which tells a file over the limit, whatever the file and the failures; the record walk is exact on arbitrary bytes; serializing and parsing are inverse; in a system whose
  calls do not fail, a store in a run stays equal to what its file opens to, operations that report an error
  included, for the store's own operations and for any sequence of client operations; a write that fails leaves memory ahead of the
  file; Set, Delete, Rename and the adapter change exactly what they say; Format and
  FormatOVMF make empty stores with a valid checksum. Device paths, load options and boot variables
  round trip, with exact acceptance conditions. PK changes only after db and KEK are in place; a
  formatted image can be enrolled. An authenticated write stores a descriptor whose signature
  verifies over exactly the written name, GUID, attributes, time and data. Every guarded loop ends
  before its guard trips.

  \<^bold>\<open>Bounds.\<close> There is no fuel: every loop is a total function with a termination proof by its growing offset. Durability
  is stated for limits with MaxFileSize at most 4 GiB - 64 (\<open>sane_limits\<close>; the default is 256 MiB), because the source
  keeps offsets in 32 bits; \<open>Set\<close> steps keep within MaxVariables, because \<open>Set\<close> does not check it, and have
  names in valid UTF-8, because others do not survive UTF-16.

  \<^bold>\<open>Not modelled.\<close> The contents of file modes and open files beyond read and write outcomes; crashes in the middle of
  os.WriteFile other than as a failing write; concurrent use, which the package does not
  support; the arithmetic of crypto/rsa and its random source, and a panic of it on a malformed key, which are behind \<open>rsa_spec\<close>; aliasing of slices
  between a store and its callers (List and Get hand out copies of the list, whose Data slices are
  shared); the operands in error messages; doc.go, which has no code.
\<close>

section \<open>Properties that span the components\<close>

text \<open>Property C1. All clients together: in a quiet system, after any sequence of operations of the boot
  manager, the Secure Boot enrolment, the authenticated writes and the filesystem adapter on one opened store,
  operations that report an error included, the file on disk opens to exactly the store in memory, with the layout of the
  opening, and without two variables of one name and GUID if there were none. The names are
  valid UTF-8, and the sequence may add three variables per operation within the limit of the opening.\<close>

theorem clients_keep_file_and_memory_equal:
  assumes "safeio_spec sio" and "quiet w0" and "sane_limits l" and "OpenLimits sio w0 p l = (w1, Ok s0)"
    and "\<forall>op \<in> set ops. valid_op op"
    and "int (length (vars s0)) + 3 * int (length ops) \<le> sint (MaxVariables (lim s0))"
    and "fold (run_op rsa) ops (w1, s0) = (w, s)"
  shows "OpenLimits sio w p l = (w, Ok s) \<and> s0\<lparr>vars := vars s\<rparr> = s \<and> (distinct_keys s0 \<longrightarrow> distinct_keys s)"
proof -
  have "room (3 * length ops) (w1, s0)"
    using assms(6) by (simp add: room_def)
  from run_ops_adds [OF assms(5) this, of sio rsa] have "(store_step sio)\<^sup>*\<^sup>* (w1, s0) (w, s)"
    by (simp add: assms(7) adds_def)
  from run_reopens [OF assms(1-4) this] show ?thesis .
qed

text \<open>Property C19. The loop guards never trip: for every input, each loop that safeio guards
  gives the result that it gives without a guard, so the loops end on their own: the device-path
  walk, the scan for the description's end, and the record walk of every store below 4 GiB.\<close>

theorem loop_guards_never_trip:
  assumes "safeio_spec sio"
  shows "ParseDevicePath sio b = ParseDevicePath (unguarded sio) b \<and>
    ParseLoadOption sio b = ParseLoadOption (unguarded sio) b \<and>
    (length d + 64 \<le> 2 ^ 32 \<longrightarrow> unat off + 92 \<le> 2 ^ 32 \<longrightarrow>
      parseVariables sio d off sz a maxVars = parseVariables (unguarded sio) d off sz a maxVars)"
  using ParseDevicePath_unguarded [OF assms] ParseLoadOption_unguarded [OF assms] parseVariables_unguarded [OF assms] by simp

text \<open>Property C7. From nothing to Secure Boot: in a quiet system, formatting a standard x86-64
  image and enrolling keys whose certificates are at most 100 KiB each succeeds, and reopening the file
  gives a store with exactly the three variables db, KEK and PK, each the signature list of its certificate.\<close>

theorem formatted_image_enrols:
  assumes "safeio_spec sio" and "quiet w"
    and "length (DB keys) \<le> 102400" and "length (KEK keys) \<le> 102400" and "length (PK keys) \<le> 102400"
  shows "\<exists>w1 s w2 s2. FormatOVMF sio w p VarsSizeX86_64 OVMFX86_64 = (w1, Ok s) \<and>
    EnrollSecureBootKeys nv_store (w1, s) keys = ((w2, s2), Ok ()) \<and> Open sio w2 p = (w2, Ok s2) \<and>
    vars s2 = [key_var ''db'' EFIImageSecurityDatabaseGUID (DB keys), key_var ''KEK'' EFIGlobalVariableGUID (KEK keys),
      key_var ''PK'' EFIGlobalVariableGUID (PK keys)]"
proof -
  have fit: "keys_fit keys"
    using assms(3-5) by (simp add: keys_fit_def)
  obtain img where F: "FormatOVMF sio w p VarsSizeX86_64 OVMFX86_64 =
      (w\<lparr>files := (files w)(p \<mapsto> img)\<rparr>,
       Ok \<lparr> path = p, lim = default_limits, vars = [], fvWrapped = True, authVars = True, storeOff = 72, storeSize = 524216 \<rparr>)"
    using FormatOVMF_Ok [OF assms(1,2), of OVMFX86_64 "0x80000" p]
    by (auto simp: VarsSizeX86_64_def OVMFX86_64_def OVMFAArch64_def)
  define w1 where "w1 = w\<lparr>files := (files w)(p \<mapsto> img)\<rparr>"
  define s where "s = \<lparr> path = p, lim = default_limits, vars = [], fvWrapped = True, authVars = True, storeOff = 72,
    storeSize = 524216 \<rparr>"
  note F = F [folded w1_def s_def]
  note syn = formatted_synced [OF assms(2) disjI2 [OF F]]
  obtain img' where b: "backed w1 s img'"
    using synced_backed [OF syn(1)] by blast
  have "StoreHeaderSize + length (serializeVars (vars s) (authVars s)) +
      length (encodeVariable (key_var ''db'' EFIImageSecurityDatabaseGUID (DB keys)) (authVars s)) +
      length (encodeVariable (key_var ''KEK'' EFIGlobalVariableGUID (KEK keys)) (authVars s)) +
      length (encodeVariable (key_var ''PK'' EFIGlobalVariableGUID (PK keys)) (authVars s)) \<le> unat (storeSize s)"
    using key_record_length [of "''db''" "DB keys" EFIImageSecurityDatabaseGUID True]
      key_record_length [of "''KEK''" "KEK keys" EFIGlobalVariableGUID True]
      key_record_length [of "''PK''" "PK keys" EFIGlobalVariableGUID True] assms(3-5)
    by (simp add: s_def serializeVars_def StoreHeaderSize_def)
  from Enroll_room [OF fit syn(2) b this] obtain w2 s2 where e: "EnrollSecureBootKeys nv_store (w1, s) keys = ((w2, s2), Ok ())"
    by auto
  have "room 3 (w1, s)"
    by (simp add: room_def s_def sint_defaults)
  from adds_Enroll [OF this, of sio keys] have "adds sio 3 (w1, s) (w2, s2)"
    by (simp add: e)
  then have run: "(store_step sio)\<^sup>*\<^sup>* (w1, s) (w2, s2)"
    by (simp add: adds_def)
  have "OpenLimits sio w1 p \<lparr> MaxFileSize = 0, MaxVariables = 0 \<rparr> = (w1, Ok s)"
    using synced_open [OF syn(2,1), of "\<lparr> MaxFileSize = 0, MaxVariables = 0 \<rparr>"] by (simp add: syn resolve_default)
  from run_reopens [OF assms(1) syn(2) sane_defaults(1) this run] have "Open sio w2 p = (w2, Ok s2)"
    by (simp add: Open_def)
  moreover have "vars s2 = [key_var ''db'' EFIImageSecurityDatabaseGUID (DB keys), key_var ''KEK'' EFIGlobalVariableGUID (KEK keys),
      key_var ''PK'' EFIGlobalVariableGUID (PK keys)]"
    using Enroll_vars [OF fit e] by (simp add: s_def vars_set_def same_var_def key_var_def)
  ultimately show ?thesis
    using F e by blast
qed

subsection \<open>Witnesses\<close>

lemma demo_opens: "OpenLimits counting_safeio demo_os ''v'' default_limits = (demo_os, Ok demo_store)"
proof -
  have "resolve default_limits = lim demo_store"
    by (simp add: demo_store_def resolve_def DefaultMaxFileSize_def DefaultMaxVariables_def)
  from synced_open [OF demo_synced this] show ?thesis
    by (simp add: demo_store_def)
qed

theorem clients_keep_file_and_memory_equal_witness:
  "\<exists>w s. fold (run_op demo_rsa) [OpSetTimeout 5, OpEnroll demo_keys, OpRename ''Timeout'' ''T'', OpAddBootEntry demo_option]
       (demo_os, demo_store) = (w, s) \<and>
     OpenLimits counting_safeio w ''v'' default_limits = (w, Ok s) \<and> distinct_keys s"
proof -
  let ?ops = "[OpSetTimeout 5, OpEnroll demo_keys, OpRename ''Timeout'' ''T'', OpAddBootEntry demo_option] :: unit client_op list"
  obtain w s where f: "fold (run_op demo_rsa) ?ops (demo_os, demo_store) = (w, s)"
    by (rule prod.exhaust)
  have v: "\<forall>op \<in> set ?ops. valid_op op"
    by (simp add: valid_utf8_ascii)
  have r: "int (length (vars demo_store)) + 3 * int (length ?ops) \<le> sint (MaxVariables (lim demo_store))"
    by (simp add: demo_store_def sint_defaults)
  have "distinct_keys demo_store"
    by (simp add: distinct_keys_def demo_store_def)
  with clients_keep_file_and_memory_equal [OF counting_safeio_spec demo_synced(1) sane_defaults(2) demo_opens v r f] f show ?thesis
    by blast
qed

theorem loop_guards_never_trip_witness:
  "ParseDevicePath counting_safeio [0x7F, 0xFF, 4, 0] = ParseDevicePath (unguarded counting_safeio) [0x7F, 0xFF, 4, 0] \<and>
   parseVariables counting_safeio (replicate 96 0xFF) 0 96 True 10 = parseVariables (unguarded counting_safeio) (replicate 96 0xFF) 0 96 True 10"
  using loop_guards_never_trip [OF counting_safeio_spec, of "[0x7F, 0xFF, 4, 0]" "replicate 96 0xFF" 0 96 True 10] by simp

theorem formatted_image_enrols_witness:
  "\<exists>w1 s w2 s2. FormatOVMF counting_safeio demo_os0 ''v'' VarsSizeX86_64 OVMFX86_64 = (w1, Ok s) \<and>
     EnrollSecureBootKeys nv_store (w1, s) demo_keys = ((w2, s2), Ok ()) \<and> Open counting_safeio w2 ''v'' = (w2, Ok s2)"
proof -
  have "quiet demo_os0" "length (DB demo_keys) \<le> 102400" "length (KEK demo_keys) \<le> 102400" "length (PK demo_keys) \<le> 102400"
    by (simp_all add: demo_os0_def quiet_def demo_keys_def)
  from formatted_image_enrols [OF counting_safeio_spec this, of "''v''"] show ?thesis
    by blast
qed

end
